theory Spec2Isabelle
  imports Main "HOL-Library.Word"
begin

unbundle bit_operations_syntax

section \<open>The per-CPU slab of tcmalloc/internal/percpu\_tcmalloc.h\<close>

text \<open>
  The embedding follows \<^verbatim>\<open>TcmallocSlab<NumClasses>\<close> for the x86-64 build. One
  operation is one sequential run of its code: a restartable sequence that commits, a
  fence that returns at once, no other thread in between. The per-CPU region of a CPU is
  an array of 64-bit words indexed from the region start, as the assembly addresses it:
  word \<open>sc\<close> (a size class, below \<open>NumClasses\<close>) is the packed header of that class, and a
  slot offset kept in a header indexes the same array.
\<close>

type_synonym u8 = "8 word"
type_synonym u16 = "16 word"
type_synonym u32 = "32 word"
type_synonym u64 = "64 word"

subsection \<open>Fatal conditions\<close>

text \<open>
  Modelled from the spec: the macros \<^verbatim>\<open>ASSERT\<close>, \<^verbatim>\<open>CHECK_CONDITION\<close> and \<^verbatim>\<open>Crash\<close> of
  tcmalloc/internal/logging.h, which is not among the sources. A violated precondition
  is fatal and aborts the process; the model returns the failure as a value.
\<close>

datatype crash = AssertFailed | CheckFailed | Crashed

subsection \<open>Header\<close>

text \<open>
  \<^verbatim>\<open>struct Header { uint16_t current; uint16_t end_copy;
                  union { struct { uint16_t begin; uint16_t end; }; uint32_t lock_update; }; }\<close>
  The fields \<^verbatim>\<open>begin\<close> and \<^verbatim>\<open>end\<close> are \<open>begin_off\<close> and \<open>end_off\<close> here.
\<close>

record Header =
  current :: u16
  end_copy :: u16
  begin_off :: u16
  end_off :: u16

text \<open>\<^verbatim>\<open>absl::bit_cast\<close> between \<^verbatim>\<open>Header\<close> and \<^verbatim>\<open>int64_t\<close> (little endian: \<^verbatim>\<open>current\<close> at
  byte 0, \<^verbatim>\<open>end_copy\<close> at byte 2, \<^verbatim>\<open>begin\<close> at byte 4, \<^verbatim>\<open>end\<close> at byte 6, the offsets
  the assembly of Push and Pop reads).\<close>

definition bit_cast_int64 :: "Header \<Rightarrow> u64" where
  "bit_cast_int64 h =
     ucast (current h) OR push_bit 16 (ucast (end_copy h)) OR
     push_bit 32 (ucast (begin_off h)) OR push_bit 48 (ucast (end_off h))"

definition bit_cast_Header :: "u64 \<Rightarrow> Header" where
  "bit_cast_Header w =
     \<lparr>current = ucast w, end_copy = ucast (drop_bit 16 w),
      begin_off = ucast (drop_bit 32 w), end_off = ucast (drop_bit 48 w)\<rparr>"

text \<open>The union member \<^verbatim>\<open>lock_update\<close>: \<^verbatim>\<open>begin\<close> in its low half, \<^verbatim>\<open>end\<close> in its high half.\<close>

definition lock_update :: "Header \<Rightarrow> u32" where
  "lock_update h = ucast (begin_off h) OR push_bit 16 (ucast (end_off h))"

text \<open>A 32-bit store to bytes 4..7 of a header word, and a 16-bit store to bytes 0..1.\<close>

definition store32_lock_update :: "u64 \<Rightarrow> u32 \<Rightarrow> u64" where
  "store32_lock_update w v = (w AND 0xFFFFFFFF) OR push_bit 32 (ucast v)"

definition store16_current :: "u64 \<Rightarrow> u16 \<Rightarrow> u64" where
  "store16_current w v = (w AND NOT 0xFFFF) OR ucast v"

text \<open>\<^verbatim>\<open>Header::IsLocked\<close>: the assertion \<^verbatim>\<open>begin == 0xffffu -> end == 0\<close>, then
  \<^verbatim>\<open>begin == 0xffffu\<close>.\<close>

definition IsLocked :: "Header \<Rightarrow> crash + bool" where
  "IsLocked h =
     (if begin_off h = 0xFFFF \<and> end_off h \<noteq> 0 then Inl AssertFailed
      else Inr (begin_off h = 0xFFFF))"

text \<open>\<^verbatim>\<open>Header::Lock\<close>, on the word in memory that holds the header: a local header gets
  \<^verbatim>\<open>begin = 0xffff\<close> and \<^verbatim>\<open>end = 0\<close> (its other two fields are never read), and its
  \<^verbatim>\<open>lock_update\<close> is stored to the \<^verbatim>\<open>lock_update\<close> half of the word.\<close>

definition Lock :: "u64 \<Rightarrow> u64" where
  "Lock w =
     store32_lock_update w
       (lock_update \<lparr>current = 0, end_copy = 0, begin_off = 0xFFFF, end_off = 0\<rparr>)"

subsection \<open>The slab\<close>

text \<open>
  \<open>slabs_and_shift\<close> is the raw word of \<^verbatim>\<open>SlabsAndShift\<close>; \<open>mem cpu i\<close> is the \<open>i\<close>-th
  64-bit word of the region \<^verbatim>\<open>CpuMemoryStart(slabs, shift, cpu)\<close>; \<open>num_cpus\<close> is
  \<^verbatim>\<open>absl::base_internal::NumCPUs()\<close>; \<open>rseq_cpu\<close> is the CPU id the calling thread reads
  from \<^verbatim>\<open>__rseq_abi\<close>; \<open>world\<close> is whatever the drain and shrink handlers own.
\<close>

record 'w TcmallocSlab =
  slabs_and_shift :: u64
  mem :: "int \<Rightarrow> nat \<Rightarrow> u64"
  num_cpus :: int
  rseq_cpu :: int
  world :: 'w

definition GetShift :: "'w TcmallocSlab \<Rightarrow> u8" where
  "GetShift s = ucast (slabs_and_shift s AND 0xFF)"

definition GetSlabs :: "'w TcmallocSlab \<Rightarrow> u64" where
  "GetSlabs s = slabs_and_shift s AND NOT 0xFF"

definition store_word :: "'w TcmallocSlab \<Rightarrow> int \<Rightarrow> nat \<Rightarrow> u64 \<Rightarrow> 'w TcmallocSlab" where
  "store_word s cpu i v = s\<lparr>mem := (mem s)(cpu := (mem s cpu)(i := v))\<rparr>"

definition LoadHeader :: "'w TcmallocSlab \<Rightarrow> int \<Rightarrow> nat \<Rightarrow> Header" where
  "LoadHeader s cpu sc = bit_cast_Header (mem s cpu sc)"

definition StoreHeader :: "'w TcmallocSlab \<Rightarrow> int \<Rightarrow> nat \<Rightarrow> Header \<Rightarrow> 'w TcmallocSlab" where
  "StoreHeader s cpu sc hdr = store_word s cpu sc (bit_cast_int64 hdr)"

definition LockHeader :: "'w TcmallocSlab \<Rightarrow> int \<Rightarrow> nat \<Rightarrow> 'w TcmallocSlab" where
  "LockHeader s cpu sc = store_word s cpu sc (Lock (mem s cpu sc))"

subsection \<open>Length and Capacity\<close>

text \<open>The difference of two \<^verbatim>\<open>uint16_t\<close> is an \<^verbatim>\<open>int\<close>, converted to \<^verbatim>\<open>size_t\<close> on return:
  the difference modulo \<open>2 ^ 64\<close>.\<close>

definition Length :: "'w TcmallocSlab \<Rightarrow> int \<Rightarrow> nat \<Rightarrow> crash + u64" where
  "Length s cpu sc =
     (let hdr = LoadHeader s cpu sc in
      case IsLocked hdr of
        Inl e \<Rightarrow> Inl e
      | Inr locked \<Rightarrow> Inr (if locked then 0 else ucast (current hdr) - ucast (begin_off hdr)))"

definition Capacity :: "'w TcmallocSlab \<Rightarrow> int \<Rightarrow> nat \<Rightarrow> crash + u64" where
  "Capacity s cpu sc =
     (let hdr = LoadHeader s cpu sc in
      case IsLocked hdr of
        Inl e \<Rightarrow> Inl e
      | Inr locked \<Rightarrow> Inr (if locked then 0 else ucast (end_off hdr) - ucast (begin_off hdr)))"

subsection \<open>The compare-and-swap bound to a CPU\<close>

text \<open>
  Modelled from the spec: \<^verbatim>\<open>TcmallocSlab_Internal_PerCpuCmpxchg64\<close>, the assembly behind
  \<^verbatim>\<open>CompareAndSwapUnsafe\<close>, which is not among the sources. It attempts the 64-bit
  compare-and-swap only while the thread is on \<open>cpu\<close>, and returns the CPU it ran on, or
  a negative value when it ran on \<open>cpu\<close> and the word did not hold the expected value.
\<close>

definition CompareAndSwapHeader ::
  "'w TcmallocSlab \<Rightarrow> int \<Rightarrow> nat \<Rightarrow> Header \<Rightarrow> Header \<Rightarrow> int \<times> 'w TcmallocSlab" where
  "CompareAndSwapHeader s cpu sc old hdr =
     (if rseq_cpu s \<noteq> cpu then (rseq_cpu s, s)
      else if mem s cpu sc = bit_cast_int64 old then (cpu, StoreHeader s cpu sc hdr)
      else (- 1, s))"

subsection \<open>Grow and Shrink\<close>

text \<open>
  \<^verbatim>\<open>std::min<uint16_t>\<close> converts both arguments to \<^verbatim>\<open>uint16_t\<close> first. In Grow the second
  argument is a \<^verbatim>\<open>size_t\<close> difference; in Shrink it is the \<^verbatim>\<open>int\<close> difference of two
  \<^verbatim>\<open>uint16_t\<close>. The loop runs until the compare-and-swap reports a CPU; a run that never
  leaves the loop has the value \<open>None\<close>.
\<close>

partial_function (option) Grow_loop ::
  "'w TcmallocSlab \<Rightarrow> int \<Rightarrow> nat \<Rightarrow> u64 \<Rightarrow> u64 \<Rightarrow> (crash + u64 \<times> 'w TcmallocSlab) option" where
  "Grow_loop s cpu sc len max_cap =
     (let old = LoadHeader s cpu sc in
      case IsLocked old of
        Inl e \<Rightarrow> Some (Inl e)
      | Inr locked \<Rightarrow>
          if locked \<or> ucast (end_off old) - ucast (begin_off old) = max_cap \<or> begin_off old = 0
          then Some (Inr (0, s))
          else
            let n = min (ucast len :: u16)
                        (ucast (max_cap - (ucast (end_off old) - ucast (begin_off old))));
                hdr = old\<lparr>end_off := end_off old + n, end_copy := end_copy old + n\<rparr>;
                r = CompareAndSwapHeader s cpu sc old hdr
            in if fst r = cpu then Some (Inr (ucast n, snd r))
               else if 0 \<le> fst r then Some (Inr (0, snd r))
               else Grow_loop (snd r) cpu sc len max_cap)"

definition Grow ::
  "'w TcmallocSlab \<Rightarrow> int \<Rightarrow> nat \<Rightarrow> u64 \<Rightarrow> (u8 \<Rightarrow> u64) \<Rightarrow> (crash + u64 \<times> 'w TcmallocSlab) option" where
  "Grow s cpu sc len max_capacity = Grow_loop s cpu sc len (max_capacity (GetShift s))"

partial_function (option) Shrink ::
  "'w TcmallocSlab \<Rightarrow> int \<Rightarrow> nat \<Rightarrow> u64 \<Rightarrow> (crash + u64 \<times> 'w TcmallocSlab) option" where
  "Shrink s cpu sc len =
     (let old = LoadHeader s cpu sc in
      case IsLocked old of
        Inl e \<Rightarrow> Some (Inl e)
      | Inr locked \<Rightarrow>
          if locked \<or> current old = end_off old \<or> begin_off old = 0
          then Some (Inr (0, s))
          else
            let n = min (ucast len :: u16) (end_off old - current old);
                hdr = old\<lparr>end_off := end_off old - n, end_copy := end_copy old - n\<rparr>;
                r = CompareAndSwapHeader s cpu sc old hdr
            in if fst r = cpu then Some (Inr (ucast n, snd r))
               else if 0 \<le> fst r then Some (Inr (0, snd r))
               else Shrink (snd r) cpu sc len)"

subsection \<open>Push and Pop\<close>

type_synonym ('a, 'w) OverflowHandler =
  "int \<Rightarrow> nat \<Rightarrow> u64 \<Rightarrow> 'a \<Rightarrow> 'w TcmallocSlab \<Rightarrow> int \<times> 'w TcmallocSlab"

type_synonym ('a, 'w) UnderflowHandler =
  "int \<Rightarrow> nat \<Rightarrow> 'a \<Rightarrow> 'w TcmallocSlab \<Rightarrow> u64 \<times> 'w TcmallocSlab"

text \<open>
  \<^verbatim>\<open>TcmallocSlab_Internal_Push\<close> (x86-64), a committed run of the restartable sequence:
  \<^verbatim>\<open>r11 = current\<close>; \<^verbatim>\<open>jae overflow_label\<close> when \<^verbatim>\<open>r11 >= end\<close>; the item is stored to word
  \<^verbatim>\<open>r11\<close> of the region; \<^verbatim>\<open>r11 + 1\<close> is stored to the 16 bits of \<^verbatim>\<open>current\<close>. At
  \<^verbatim>\<open>overflow_label\<close> the CPU id is read again and the handler's value is returned; the
  handler may change the slab. The aarch64 sequence compares and stores the same.
\<close>

definition TcmallocSlab_Internal_Push ::
  "'w TcmallocSlab \<Rightarrow> nat \<Rightarrow> u64 \<Rightarrow> ('a, 'w) OverflowHandler \<Rightarrow> 'a \<Rightarrow> int \<times> 'w TcmallocSlab" where
  "TcmallocSlab_Internal_Push s sc item overflow_handler arg =
     (let cpu = rseq_cpu s;
          r11 = current (LoadHeader s cpu sc)
      in if end_off (LoadHeader s cpu sc) \<le> r11 then overflow_handler (rseq_cpu s) sc item arg s
         else
           let s1 = store_word s cpu (unat r11) item;
               s2 = store_word s1 cpu sc (store16_current (mem s1 cpu sc) (r11 + 1))
           in (0, s2))"

text \<open>\<^verbatim>\<open>TcmallocSlab::Push\<close>: \<^verbatim>\<open>ASSERT(IsFastNoInit())\<close>, that is \<^verbatim>\<open>RseqCpuId() >= 0\<close>, and
  \<^verbatim>\<open>ASSERT(item != nullptr)\<close>; the result is \<^verbatim>\<open>TcmallocSlab_Internal_Push(...) >= 0\<close>.\<close>

definition Push ::
  "'w TcmallocSlab \<Rightarrow> nat \<Rightarrow> u64 \<Rightarrow> ('a, 'w) OverflowHandler \<Rightarrow> 'a \<Rightarrow> crash + bool \<times> 'w TcmallocSlab" where
  "Push s sc item overflow_handler arg =
     (if rseq_cpu s < 0 then Inl AssertFailed
      else if item = 0 then Inl AssertFailed
      else let r = TcmallocSlab_Internal_Push s sc item overflow_handler arg
           in Inr (0 \<le> fst r, snd r))"

text \<open>
  \<^verbatim>\<open>TcmallocSlab_Internal_Pop\<close> (x86-64): \<^verbatim>\<open>jbe underflow_path\<close> when \<^verbatim>\<open>current <= begin\<close>;
  the result is word \<^verbatim>\<open>current - 1\<close> of the region; \<^verbatim>\<open>current - 1\<close> is stored to the 16 bits
  of \<^verbatim>\<open>current\<close>. The prefetch of the word below changes no state and is left out.
\<close>

definition TcmallocSlab_Internal_Pop ::
  "'w TcmallocSlab \<Rightarrow> nat \<Rightarrow> ('a, 'w) UnderflowHandler \<Rightarrow> 'a \<Rightarrow> u64 \<times> 'w TcmallocSlab" where
  "TcmallocSlab_Internal_Pop s sc underflow_handler arg =
     (let cpu = rseq_cpu s;
          cur = current (LoadHeader s cpu sc)
      in if cur \<le> begin_off (LoadHeader s cpu sc) then underflow_handler (rseq_cpu s) sc arg s
         else
           let result = mem s cpu (unat cur - 1);
               s1 = store_word s cpu sc (store16_current (mem s cpu sc) (cur - 1))
           in (result, s1))"

definition Pop ::
  "'w TcmallocSlab \<Rightarrow> nat \<Rightarrow> ('a, 'w) UnderflowHandler \<Rightarrow> 'a \<Rightarrow> crash + u64 \<times> 'w TcmallocSlab" where
  "Pop s sc underflow_handler arg =
     (if rseq_cpu s < 0 then Inl AssertFailed
      else Inr (TcmallocSlab_Internal_Pop s sc underflow_handler arg))"

text \<open>\<^verbatim>\<open>NoopUnderflow\<close> and \<^verbatim>\<open>NoopOverflow\<close>.\<close>

definition NoopUnderflow :: "('a, 'w) UnderflowHandler" where
  "NoopUnderflow cpu sc arg s = (0, s)"

definition NoopOverflow :: "('a, 'w) OverflowHandler" where
  "NoopOverflow cpu sc item arg s = (- 1, s)"

subsection \<open>Loops over the size classes\<close>

text \<open>\<^verbatim>\<open>for (size_t size_class = 0; size_class < NumClasses; ++size_class)\<close> with a body
  that may abort the process: the classes are visited in order until one fails.\<close>

primrec for_each :: "nat list \<Rightarrow> (nat \<Rightarrow> 'a \<Rightarrow> crash + 'a) \<Rightarrow> 'a \<Rightarrow> crash + 'a" where
  "for_each [] body a = Inr a"
| "for_each (i # rest) body a =
     (case body i a of Inl e \<Rightarrow> Inl e | Inr a' \<Rightarrow> for_each rest body a')"

subsection \<open>StopConcurrentMutations\<close>

text \<open>The second inner loop: \<^verbatim>\<open>done\<close> stays true unless a header is found unlocked, where
  the loop breaks.\<close>

primrec all_locked :: "'w TcmallocSlab \<Rightarrow> int \<Rightarrow> nat list \<Rightarrow> crash + bool" where
  "all_locked s cpu [] = Inr True"
| "all_locked s cpu (sc # rest) =
     (case IsLocked (LoadHeader s cpu sc) of
        Inl e \<Rightarrow> Inl e
      | Inr locked \<Rightarrow> if \<not> locked then Inr False else all_locked s cpu rest)"

partial_function (option) StopConcurrentMutations ::
  "nat \<Rightarrow> 'w TcmallocSlab \<Rightarrow> int \<Rightarrow> (crash + 'w TcmallocSlab) option" where
  "StopConcurrentMutations NumClasses s cpu =
     (let s1 = fold (\<lambda>sc t. LockHeader t cpu sc) [0..<NumClasses] s in
      case all_locked s1 cpu [0..<NumClasses] of
        Inl e \<Rightarrow> Some (Inl e)
      | Inr done \<Rightarrow> if done then Some (Inr s1) else StopConcurrentMutations NumClasses s1 cpu)"

subsection \<open>Drain\<close>

type_synonym 'w DrainHandler = "int \<Rightarrow> nat \<Rightarrow> u64 list \<Rightarrow> u64 \<Rightarrow> u64 \<Rightarrow> 'w \<Rightarrow> 'w"

text \<open>A batch handed to a handler is a pointer into the region; the handler receives the
  \<open>n\<close> words that start there.\<close>

definition batch_at :: "'w TcmallocSlab \<Rightarrow> int \<Rightarrow> nat \<Rightarrow> nat \<Rightarrow> u64 list" where
  "batch_at s cpu i n = map (mem s cpu) [i..<i + n]"

definition DrainCpu ::
  "nat \<Rightarrow> 'w TcmallocSlab \<Rightarrow> int \<Rightarrow> (nat \<Rightarrow> u16) \<Rightarrow> 'w DrainHandler \<Rightarrow> 'w TcmallocSlab" where
  "DrainCpu NumClasses s cpu begins drain_handler =
     fold (\<lambda>sc t.
        let header = LoadHeader t cpu sc;
            size = (ucast (current header) - ucast (begins sc) :: u64);
            cap = (ucast (end_copy header) - ucast (begins sc) :: u64)
        in t\<lparr>world := drain_handler cpu sc (batch_at t cpu (unat (begins sc)) (unat size))
                          size cap (world t)\<rparr>)
       [0..<NumClasses] s"

definition Drain ::
  "nat \<Rightarrow> 'w TcmallocSlab \<Rightarrow> int \<Rightarrow> 'w DrainHandler \<Rightarrow> (crash + 'w TcmallocSlab) option" where
  "Drain NumClasses s cpu drain_handler =
     (if \<not> 0 \<le> cpu then Some (Inl CheckFailed)
      else if \<not> cpu < num_cpus s then Some (Inl CheckFailed)
      else
        case for_each [0..<NumClasses]
               (\<lambda>sc begins.
                  let hdr = LoadHeader s cpu sc in
                  case IsLocked hdr of
                    Inl e \<Rightarrow> Inl e
                  | Inr locked \<Rightarrow>
                      if locked then Inl CheckFailed else Inr (begins(sc := begin_off hdr)))
               (\<lambda>sc. 0) of
          Inl e \<Rightarrow> Some (Inl e)
        | Inr begins \<Rightarrow>
            (case StopConcurrentMutations NumClasses s cpu of
               None \<Rightarrow> None
             | Some (Inl e) \<Rightarrow> Some (Inl e)
             | Some (Inr s2) \<Rightarrow>
                 let s3 = DrainCpu NumClasses s2 cpu begins drain_handler;
                     s4 = fold (\<lambda>sc t. StoreHeader t cpu sc
                                   ((LoadHeader t cpu sc)\<lparr>current := begins sc\<rparr>))
                            [0..<NumClasses] s3;
                     s5 = fold (\<lambda>sc t. StoreHeader t cpu sc
                                   \<lparr>current = begins sc, end_copy = begins sc,
                                    begin_off = begins sc, end_off = begins sc\<rparr>)
                            [0..<NumClasses] s4
                 in Some (Inr s5)))"

subsection \<open>ShrinkOtherCache\<close>

type_synonym 'w ShrinkHandler = "nat \<Rightarrow> u64 list \<Rightarrow> u64 \<Rightarrow> 'w \<Rightarrow> 'w"

text \<open>Phase 2, the \<^verbatim>\<open>do ... while (!hdr.IsLocked())\<close> loop.\<close>

partial_function (option) ShrinkOtherCache_lock ::
  "'w TcmallocSlab \<Rightarrow> int \<Rightarrow> nat \<Rightarrow> (crash + Header \<times> 'w TcmallocSlab) option" where
  "ShrinkOtherCache_lock s cpu sc =
     (let s1 = LockHeader s cpu sc;
          hdr = LoadHeader s1 cpu sc
      in case IsLocked hdr of
           Inl e \<Rightarrow> Some (Inl e)
         | Inr locked \<Rightarrow>
             if locked then Some (Inr (hdr, s1)) else ShrinkOtherCache_lock s1 cpu sc)"

text \<open>
  Phases 3 and 4 on the locked header \<open>hdr\<close>. \<^verbatim>\<open>unused < len\<close> compares the promoted
  \<^verbatim>\<open>uint16_t\<close> with the \<^verbatim>\<open>size_t\<close>; \<^verbatim>\<open>expected_pop\<close> and both arguments of each
  \<^verbatim>\<open>std::min<uint16_t>\<close> are cut to 16 bits. The batch starts at word
  \<^verbatim>\<open>hdr.current - actual_pop\<close> of the region (taken as 0 where \<^verbatim>\<open>actual_pop\<close> exceeds
  \<^verbatim>\<open>current\<close>, which the C++ leaves undefined).
\<close>

definition ShrinkOtherCache_shrink ::
  "'w TcmallocSlab \<Rightarrow> int \<Rightarrow> nat \<Rightarrow> u64 \<Rightarrow> 'w ShrinkHandler \<Rightarrow> u16 \<Rightarrow> Header
     \<Rightarrow> u64 \<times> 'w TcmallocSlab" where
  "ShrinkOtherCache_shrink s cpu sc len shrink_handler begin hdr =
     (let unused = end_copy hdr - current hdr;
          popped =
            (if ucast unused < len then
               let expected_pop = (ucast (len - ucast unused) :: u16);
                   actual_pop = min expected_pop (current hdr - begin);
                   batch = batch_at s cpu (unat (current hdr) - unat actual_pop) (unat actual_pop);
                   t = s\<lparr>world := shrink_handler sc batch (ucast actual_pop) (world s)\<rparr>;
                   hdr1 = hdr\<lparr>current := current hdr - actual_pop\<rparr>
               in (hdr1, StoreHeader t cpu sc hdr1)
             else (hdr, s));
          hdr2 = (fst popped)\<lparr>begin_off := begin\<rparr>;
          to_shrink = min (ucast len :: u16) (end_copy hdr2 - current hdr2);
          hdr3 = hdr2\<lparr>end_copy := end_copy hdr2 - to_shrink\<rparr>;
          hdr4 = hdr3\<lparr>end_off := end_copy hdr3\<rparr>
      in (ucast to_shrink, StoreHeader (snd popped) cpu sc hdr4))"

definition ShrinkOtherCache ::
  "'w TcmallocSlab \<Rightarrow> int \<Rightarrow> nat \<Rightarrow> u64 \<Rightarrow> 'w ShrinkHandler
     \<Rightarrow> (crash + u64 \<times> 'w TcmallocSlab) option" where
  "ShrinkOtherCache s cpu sc len shrink_handler =
     (if \<not> 0 \<le> cpu then Some (Inl AssertFailed)
      else if \<not> cpu < num_cpus s then Some (Inl AssertFailed)
      else
        let hdr = LoadHeader s cpu sc in
        case IsLocked hdr of
          Inl e \<Rightarrow> Some (Inl e)
        | Inr locked \<Rightarrow>
            if locked then Some (Inl CheckFailed)
            else
              (case ShrinkOtherCache_lock s cpu sc of
                 None \<Rightarrow> None
               | Some (Inl e) \<Rightarrow> Some (Inl e)
               | Some (Inr (hdr1, s1)) \<Rightarrow>
                   Some (Inr (ShrinkOtherCache_shrink s1 cpu sc len shrink_handler
                                (begin_off hdr) hdr1))))"

subsection \<open>InitCpu\<close>

text \<open>The address of word \<open>i\<close> of the region of \<open>cpu\<close>:
  \<^verbatim>\<open>CpuMemoryStart\<close> is \<^verbatim>\<open>&bytes[cpu << shift]\<close> from the slabs pointer.\<close>

definition word_address :: "'w TcmallocSlab \<Rightarrow> int \<Rightarrow> nat \<Rightarrow> u64" where
  "word_address s cpu i = GetSlabs s + word_of_int (cpu * 2 ^ unat (GetShift s)) + 8 * of_nat i"




subsection \<open>Committed fast paths and sequences of calls\<close>

text \<open>The slab after the two stores of a Push that commits, and after the store of a Pop
  that commits, named for the statements below.\<close>

definition Push_commit :: "'w TcmallocSlab \<Rightarrow> nat \<Rightarrow> u64 \<Rightarrow> 'w TcmallocSlab" where
  "Push_commit s sc item =
     (let cpu = rseq_cpu s; cur = current (LoadHeader s cpu sc);
          s1 = store_word s cpu (unat cur) item
      in store_word s1 cpu sc (store16_current (mem s1 cpu sc) (cur + 1)))"

definition Pop_commit :: "'w TcmallocSlab \<Rightarrow> nat \<Rightarrow> 'w TcmallocSlab" where
  "Pop_commit s sc =
     (let cpu = rseq_cpu s; cur = current (LoadHeader s cpu sc)
      in store_word s cpu sc (store16_current (mem s cpu sc) (cur - 1)))"

text \<open>Push of each item of a list in turn, and \<open>n\<close> Pops in turn, collecting the results.\<close>

fun push_all ::
  "'w TcmallocSlab \<Rightarrow> nat \<Rightarrow> u64 list \<Rightarrow> ('a, 'w) OverflowHandler \<Rightarrow> 'a
     \<Rightarrow> crash + bool list \<times> 'w TcmallocSlab" where
  "push_all s sc [] overflow_handler arg = Inr ([], s)"
| "push_all s sc (item # rest) overflow_handler arg =
     (case Push s sc item overflow_handler arg of
        Inl e \<Rightarrow> Inl e
      | Inr (b, s1) \<Rightarrow>
          (case push_all s1 sc rest overflow_handler arg of
             Inl e \<Rightarrow> Inl e
           | Inr (bs, s2) \<Rightarrow> Inr (b # bs, s2)))"

fun pop_n ::
  "'w TcmallocSlab \<Rightarrow> nat \<Rightarrow> nat \<Rightarrow> ('a, 'w) UnderflowHandler \<Rightarrow> 'a
     \<Rightarrow> crash + u64 list \<times> 'w TcmallocSlab" where
  "pop_n s sc 0 underflow_handler arg = Inr ([], s)"
| "pop_n s sc (Suc n) underflow_handler arg =
     (case Pop s sc underflow_handler arg of
        Inl e \<Rightarrow> Inl e
      | Inr (r, s1) \<Rightarrow>
          (case pop_n s1 sc n underflow_handler arg of
             Inl e \<Rightarrow> Inl e
           | Inr (rs, s2) \<Rightarrow> Inr (r # rs, s2)))"

subsection \<open>The amounts Grow and Shrink apply\<close>

text \<open>The value of \<^verbatim>\<open>n\<close> in one pass of the loop of Grow and of Shrink, named for the
  statements below.\<close>

definition Grow_n :: "Header \<Rightarrow> u64 \<Rightarrow> u64 \<Rightarrow> u16" where
  "Grow_n h len max_cap =
     min (ucast len) (ucast (max_cap - (ucast (end_off h) - ucast (begin_off h))))"

definition Shrink_n :: "Header \<Rightarrow> u64 \<Rightarrow> u16" where
  "Shrink_n h len = min (ucast len) (end_off h - current h)"

subsection \<open>The phases of Drain\<close>

text \<open>Named for the statements below: the slab after the first inner loop of
  StopConcurrentMutations has locked the first \<open>n\<close> headers of \<open>cpu\<close>; the array
  \<^verbatim>\<open>begin\<close> that phase 1 of Drain collects; and the handler call of DrainCpu for one
  class.\<close>

definition lock_all :: "nat \<Rightarrow> 'w TcmallocSlab \<Rightarrow> int \<Rightarrow> 'w TcmallocSlab" where
  "lock_all n s cpu = fold (\<lambda>sc t. LockHeader t cpu sc) [0..<n] s"

definition collect_begins :: "nat \<Rightarrow> 'w TcmallocSlab \<Rightarrow> int \<Rightarrow> nat \<Rightarrow> u16" where
  "collect_begins n s cpu sc = (if sc < n then begin_off (LoadHeader s cpu sc) else 0)"

definition drain_call ::
  "'w TcmallocSlab \<Rightarrow> int \<Rightarrow> (nat \<Rightarrow> u16) \<Rightarrow> 'w DrainHandler \<Rightarrow> nat \<Rightarrow> 'w \<Rightarrow> 'w" where
  "drain_call s cpu begins drain_handler sc =
     drain_handler cpu sc
       (batch_at s cpu (unat (begins sc))
          (unat (ucast (current (LoadHeader s cpu sc)) - ucast (begins sc) :: u64)))
       (ucast (current (LoadHeader s cpu sc)) - ucast (begins sc))
       (ucast (end_copy (LoadHeader s cpu sc)) - ucast (begins sc))"

subsection \<open>The amounts ShrinkOtherCache pops and shrinks\<close>

text \<open>The values of \<^verbatim>\<open>actual_pop\<close> (0 when phase 3 pops nothing) and \<^verbatim>\<open>to_shrink\<close> for
  the header loaded in phase 1, named for the statements below.\<close>

definition shrink_pop :: "Header \<Rightarrow> u64 \<Rightarrow> u16" where
  "shrink_pop h len =
     (if ucast (end_copy h - current h) < len
      then min (ucast (len - ucast (end_copy h - current h))) (current h - begin_off h)
      else 0)"

definition shrink_amount :: "Header \<Rightarrow> u64 \<Rightarrow> u16" where
  "shrink_amount h len = min (ucast len) (end_copy h - (current h - shrink_pop h len))"

subsection \<open>The header invariant and the calls of the interface\<close>

text \<open>
  The relation that the header documentation states between the four offsets of an
  unlocked header.
\<close>

definition header_invariant :: "Header \<Rightarrow> bool" where
  "header_invariant h =
     (begin_off h \<le> current h \<and> current h \<le> end_off h \<and> end_copy h = end_off h)"

text \<open>
  What InitCpu establishes for the header of a size class of capacity \<open>cap\<close> in a
  region of \<open>2 ^ shift\<close> bytes: a locked header is \<open>{begin = 0xFFFF, end = 0}\<close>; an
  unlocked one satisfies the invariant and is either zero (as Init leaves every class
  of a CPU not yet initialised) or lies above the header words, holds at most \<open>cap\<close>
  slots, and has its \<open>cap\<close> slots of 8 bytes inside the region of its CPU, the bound
  of \<^verbatim>\<open>bytes_used_on_curr_slab\<close>. A slab is well formed when its shift is at most 18, so
  that every word of a region has a 16-bit offset, and all its headers are.
\<close>

definition header_wf :: "nat \<Rightarrow> nat \<Rightarrow> u64 \<Rightarrow> Header \<Rightarrow> bool" where
  "header_wf NumClasses shift cap h =
     (if begin_off h = 0xFFFF then end_off h = 0
      else header_invariant h \<and>
           (if begin_off h = 0 then end_off h = 0
            else NumClasses \<le> unat (begin_off h) \<and>
                 unat (end_off h) - unat (begin_off h) \<le> unat cap \<and>
                 8 * (unat (begin_off h) + unat cap) \<le> 2 ^ shift))"

definition slab_wf :: "nat \<Rightarrow> (nat \<Rightarrow> u64) \<Rightarrow> 'w TcmallocSlab \<Rightarrow> bool" where
  "slab_wf NumClasses capacity s =
     (unat (GetShift s) \<le> 18 \<and>
      (\<forall>cpu sc. sc < NumClasses \<longrightarrow>
         header_wf NumClasses (unat (GetShift s)) (capacity sc) (LoadHeader s cpu sc)))"






subsection \<open>A concrete slab\<close>

text \<open>Four size classes; on CPU 0 the header of class 2 has \<^verbatim>\<open>begin = 10\<close>,
  \<^verbatim>\<open>current = 12\<close> and \<^verbatim>\<open>end = end_copy = 15\<close>, and its two occupied slots hold
  \<^verbatim>\<open>0x1000\<close> and \<^verbatim>\<open>0x2000\<close>. The shift is 18.\<close>

definition hdr_example :: Header where
  "hdr_example = \<lparr>current = 12, end_copy = 15, begin_off = 10, end_off = 15\<rparr>"

definition slab_example :: "unit TcmallocSlab" where
  "slab_example =
     \<lparr>slabs_and_shift = 0x10012,
      mem = (\<lambda>cpu i. if cpu = 0 \<and> i = 2 then bit_cast_int64 hdr_example
                      else if cpu = 0 \<and> i = 10 then 0x1000
                      else if cpu = 0 \<and> i = 11 then 0x2000 else 0),
      num_cpus = 2, rseq_cpu = 0, world = ()\<rparr>"

text \<open>The same slab with class 2 of CPU 0 empty and of capacity 3.\<close>

definition hdr_empty_example :: Header where
  "hdr_empty_example = \<lparr>current = 10, end_copy = 13, begin_off = 10, end_off = 13\<rparr>"

definition slab_empty_example :: "unit TcmallocSlab" where
  "slab_empty_example = StoreHeader slab_example 0 2 hdr_empty_example"

text \<open>A slab whose world is the list of the calls a handler received; all four classes
  of CPU 0 are laid out, class 1 holds one item and class 2 two. The handler
  \<open>log_drain\<close> appends its arguments to the list.\<close>

definition drain_example :: "(int \<times> nat \<times> u64 list \<times> u64 \<times> u64) list TcmallocSlab" where
  "drain_example =
     \<lparr>slabs_and_shift = 0x10012,
      mem = (\<lambda>cpu i.
        if cpu \<noteq> 0 then 0
        else if i = 0 then bit_cast_int64 \<lparr>current = 5, end_copy = 7, begin_off = 5, end_off = 7\<rparr>
        else if i = 1 then bit_cast_int64 \<lparr>current = 9, end_copy = 9, begin_off = 8, end_off = 9\<rparr>
        else if i = 2 then bit_cast_int64 hdr_example
        else if i = 3 then bit_cast_int64 \<lparr>current = 17, end_copy = 17, begin_off = 17, end_off = 17\<rparr>
        else if i = 8 then 0xA00
        else if i = 10 then 0x1000
        else if i = 11 then 0x2000 else 0),
      num_cpus = 2, rseq_cpu = 1, world = []\<rparr>"

definition log_drain :: "(int \<times> nat \<times> u64 list \<times> u64 \<times> u64) list DrainHandler" where
  "log_drain cpu sc batch n cap w = w @ [(cpu, sc, batch, n, cap)]"

text \<open>The same memory with a world that lists the calls of the shrink handler
  \<open>log_shrink\<close>.\<close>

definition shrink_example :: "(nat \<times> u64 list \<times> u64) list TcmallocSlab" where
  "shrink_example =
     \<lparr>slabs_and_shift = 0x10012, mem = mem drain_example, num_cpus = 2, rseq_cpu = 1,
      world = []\<rparr>"

definition log_shrink :: "(nat \<times> u64 list \<times> u64) list ShrinkHandler" where
  "log_shrink sc batch n w = w @ [(sc, batch, n)]"


section \<open>Properties\<close>

subsection \<open>The packed header\<close>

lemma current_bit_cast [simp]: "current (bit_cast_Header (bit_cast_int64 h)) = current h"
  unfolding bit_cast_Header_def bit_cast_int64_def
  by (simp, rule bit_word_eqI) (auto simp: bit_simps dest: bit_imp_le_length)

lemma end_copy_bit_cast [simp]: "end_copy (bit_cast_Header (bit_cast_int64 h)) = end_copy h"
  unfolding bit_cast_Header_def bit_cast_int64_def
  by (simp, rule bit_word_eqI) (auto simp: bit_simps dest: bit_imp_le_length)

lemma begin_off_bit_cast [simp]: "begin_off (bit_cast_Header (bit_cast_int64 h)) = begin_off h"
  unfolding bit_cast_Header_def bit_cast_int64_def
  by (simp, rule bit_word_eqI) (auto simp: bit_simps dest: bit_imp_le_length)

lemma end_off_bit_cast [simp]: "end_off (bit_cast_Header (bit_cast_int64 h)) = end_off h"
  unfolding bit_cast_Header_def bit_cast_int64_def
  by (simp, rule bit_word_eqI) (auto simp: bit_simps dest: bit_imp_le_length)

lemma bit_cast_Header_int64 [simp]: "bit_cast_Header (bit_cast_int64 h) = h"
  by (rule Header.equality) (simp_all add: bit_cast_Header_def [of "bit_cast_int64 h", THEN arg_cong [of _ _ Header.more]])

lemma bit_cast_int64_Header [simp]: "bit_cast_int64 (bit_cast_Header w) = w"
  unfolding bit_cast_Header_def bit_cast_int64_def
  apply simp
  apply (rule bit_word_eqI)
  subgoal for n
    by (cases "n < 16"; cases "n < 32"; cases "n < 48") (auto simp: bit_simps)
  done

lemma mask_numerals:
  "(0xFFFFFFFF :: u64) = mask 32" "(0xFFFF :: u64) = mask 16"
  "(0xFFFF :: u32) = mask 16" "(0xFFFF :: u16) = mask 16"
  by (simp_all add: mask_eq_exp_minus_1)

lemma Lock_eq: "Lock w = (w AND mask 32) OR push_bit 32 (mask 16)"
  unfolding Lock_def store32_lock_update_def lock_update_def
  apply (simp only: mask_numerals Header.simps)
  apply (rule bit_word_eqI)
  apply (auto simp: bit_simps dest: bit_imp_le_length)
  done

lemma bit_cast_Header_Lock:
  "bit_cast_Header (Lock w) = (bit_cast_Header w)\<lparr>begin_off := 0xFFFF, end_off := 0\<rparr>"
  unfolding bit_cast_Header_def Lock_eq
  apply (simp add: mask_numerals)
  apply (intro conjI; rule bit_word_eqI)
  apply (auto simp: bit_simps dest: bit_imp_le_length)
  done

lemma bit_cast_Header_store16:
  "bit_cast_Header (store16_current w v) = (bit_cast_Header w)\<lparr>current := v\<rparr>"
  unfolding bit_cast_Header_def store16_current_def
  apply (simp add: mask_numerals)
  apply (intro conjI; rule bit_word_eqI)
  apply (auto simp: bit_simps dest: bit_imp_le_length)
  done

lemma Lock_low_half: "Lock w AND 0xFFFFFFFF = w AND 0xFFFFFFFF"
  unfolding Lock_eq
  apply (simp only: mask_numerals)
  apply (rule bit_word_eqI)
  apply (auto simp: bit_simps dest: bit_imp_le_length)
  done

lemma unat_ucast_16_64 [simp]: "unat (ucast (x :: u16) :: u64) = unat x"
proof -
  have "unat x < 2 ^ 16" using unsigned_less [of x] by simp
  then have "unat x < 2 ^ 64" by simp
  then show ?thesis by (simp add: unsigned_ucast_eq take_bit_nat_eq_self)
qed

lemma ucast_16_64_le [simp]: "((ucast (a :: u16) :: u64) \<le> ucast (b :: u16)) = (a \<le> b)"
  by (simp add: word_le_nat_alt)

lemma ucast_sub_16_64:
  "(a :: u16) \<le> b \<Longrightarrow> (ucast b - ucast a :: u64) = ucast (b - a)"
  by (rule word_unat_eq_iff [THEN iffD2]) (simp add: unat_sub)

lemma unat_ucast_sub_16_64:
  "(a :: u16) \<le> b \<Longrightarrow> unat (ucast b - ucast a :: u64) = unat b - unat a"
  by (simp add: ucast_sub_16_64 unat_sub)

lemma LoadHeader_store_word:
  "LoadHeader (store_word s cpu i v) cpu' sc =
     (if cpu' = cpu \<and> sc = i then bit_cast_Header v else LoadHeader s cpu' sc)"
  by (simp add: LoadHeader_def store_word_def)

lemma LoadHeader_StoreHeader:
  "LoadHeader (StoreHeader s cpu i h) cpu' sc =
     (if cpu' = cpu \<and> sc = i then h else LoadHeader s cpu' sc)"
  by (simp add: StoreHeader_def LoadHeader_store_word)

lemma LoadHeader_LockHeader:
  "LoadHeader (LockHeader s cpu i) cpu' sc =
     (if cpu' = cpu \<and> sc = i then (LoadHeader s cpu i)\<lparr>begin_off := 0xFFFF, end_off := 0\<rparr>
      else LoadHeader s cpu' sc)"
  unfolding LockHeader_def LoadHeader_store_word bit_cast_Header_Lock
  by (simp add: LoadHeader_def)

subsection \<open>Lock, IsLocked, Length and Capacity\<close>

lemma LoadHeader_example: "LoadHeader slab_example 0 2 = hdr_example"
  by (simp add: LoadHeader_def slab_example_def)

text \<open>
  C9: \<^verbatim>\<open>Header::Lock\<close> sets \<^verbatim>\<open>begin = 0xFFFF\<close> and \<^verbatim>\<open>end = 0\<close> by one 32-bit store:
  the low 32 bits of the header word, which hold \<^verbatim>\<open>current\<close> and \<^verbatim>\<open>end_copy\<close>, and
  every other word stay as they were, and the header then is locked. Whenever
  \<^verbatim>\<open>Header::IsLocked\<close> returns, it returns whether \<^verbatim>\<open>begin == 0xFFFF\<close>, and
  \<^verbatim>\<open>end == 0\<close> holds when it returns true; it returns for every header but one with
  \<^verbatim>\<open>begin == 0xFFFF\<close> and a nonzero \<^verbatim>\<open>end\<close>, where its assertion fails.
\<close>

theorem Header_Lock_IsLocked:
  "LoadHeader (LockHeader s cpu sc) cpu sc =
     (LoadHeader s cpu sc)\<lparr>begin_off := 0xFFFF, end_off := 0\<rparr> \<and>
   mem (LockHeader s cpu sc) cpu sc AND 0xFFFFFFFF = mem s cpu sc AND 0xFFFFFFFF \<and>
   (\<forall>cpu' i. (cpu', i) \<noteq> (cpu, sc) \<longrightarrow> mem (LockHeader s cpu sc) cpu' i = mem s cpu' i) \<and>
   IsLocked (LoadHeader (LockHeader s cpu sc) cpu sc) = Inr True \<and>
   (\<forall>b. IsLocked h = Inr b \<longrightarrow> (b = (begin_off h = 0xFFFF)) \<and> (b \<longrightarrow> end_off h = 0)) \<and>
   (begin_off h = 0xFFFF \<and> end_off h = 0 \<longrightarrow> IsLocked h = Inr True) \<and>
   (begin_off h \<noteq> 0xFFFF \<longrightarrow> IsLocked h = Inr False)"
proof (intro conjI)
  show "LoadHeader (LockHeader s cpu sc) cpu sc =
     (LoadHeader s cpu sc)\<lparr>begin_off := 0xFFFF, end_off := 0\<rparr>"
    by (simp add: LoadHeader_LockHeader)
  show "mem (LockHeader s cpu sc) cpu sc AND 0xFFFFFFFF = mem s cpu sc AND 0xFFFFFFFF"
    unfolding LockHeader_def store_word_def by (simp add: Lock_low_half)
  show "\<forall>cpu' i. (cpu', i) \<noteq> (cpu, sc) \<longrightarrow> mem (LockHeader s cpu sc) cpu' i = mem s cpu' i"
    by (auto simp: LockHeader_def store_word_def)
  show "IsLocked (LoadHeader (LockHeader s cpu sc) cpu sc) = Inr True"
    by (simp add: LoadHeader_LockHeader IsLocked_def)
  show "\<forall>b. IsLocked h = Inr b \<longrightarrow> (b = (begin_off h = 0xFFFF)) \<and> (b \<longrightarrow> end_off h = 0)"
    by (auto simp: IsLocked_def split: if_splits)
  show "begin_off h = 0xFFFF \<and> end_off h = 0 \<longrightarrow> IsLocked h = Inr True"
    by (simp add: IsLocked_def)
  show "begin_off h \<noteq> 0xFFFF \<longrightarrow> IsLocked h = Inr False"
    by (simp add: IsLocked_def)
qed

theorem Header_Lock_IsLocked_witness:
  "LoadHeader (LockHeader slab_example 0 2) 0 2 =
     \<lparr>current = 12, end_copy = 15, begin_off = 0xFFFF, end_off = 0\<rparr> \<and>
   IsLocked (LoadHeader (LockHeader slab_example 0 2) 0 2) = Inr True \<and>
   begin_off hdr_example \<noteq> 0xFFFF \<and> IsLocked hdr_example = Inr False"
proof -
  note t = Header_Lock_IsLocked [of slab_example 0 2 hdr_example]
  have a: "LoadHeader (LockHeader slab_example 0 2) 0 2 =
     (LoadHeader slab_example 0 2)\<lparr>begin_off := 0xFFFF, end_off := 0\<rparr>"
    using t by blast
  have b: "IsLocked (LoadHeader (LockHeader slab_example 0 2) 0 2) = Inr True"
    using t by blast
  have c: "begin_off hdr_example \<noteq> 0xFFFF"
    by (simp add: hdr_example_def)
  have d: "IsLocked hdr_example = Inr False"
    using t c by blast
  have e: "(LoadHeader slab_example 0 2)\<lparr>begin_off := 0xFFFF, end_off := 0\<rparr> =
     \<lparr>current = 12, end_copy = 15, begin_off = 0xFFFF, end_off = 0\<rparr>"
    by (simp add: LoadHeader_example hdr_example_def)
  show ?thesis using a b c d e by simp
qed

lemma ucast_sub_of_nat:
  "(a :: u16) \<le> b \<Longrightarrow> (ucast b - ucast a :: u64) = of_nat (unat b - unat a)"
  by (simp add: ucast_sub_16_64 unat_sub [symmetric])

text \<open>
  C10: for a header in the locked state (\<^verbatim>\<open>begin = 0xFFFF\<close>, \<^verbatim>\<open>end = 0\<close>) Length and
  Capacity return 0; for an unlocked header they return \<^verbatim>\<open>current - begin\<close> and
  \<^verbatim>\<open>end - begin\<close>, as \<^verbatim>\<open>size_t\<close>, which are the differences of the offsets as numbers
  when \<^verbatim>\<open>begin\<close> is not above \<^verbatim>\<open>current\<close> and \<^verbatim>\<open>end\<close>.
\<close>

theorem Length_Capacity_value:
  assumes "LoadHeader s cpu sc = h"
  shows
  "(begin_off h = 0xFFFF \<and> end_off h = 0 \<longrightarrow>
      Length s cpu sc = Inr 0 \<and> Capacity s cpu sc = Inr 0) \<and>
   (begin_off h \<noteq> 0xFFFF \<longrightarrow>
      Length s cpu sc = Inr (ucast (current h) - ucast (begin_off h)) \<and>
      Capacity s cpu sc = Inr (ucast (end_off h) - ucast (begin_off h))) \<and>
   (begin_off h \<noteq> 0xFFFF \<and> begin_off h \<le> current h \<longrightarrow>
      Length s cpu sc = Inr (of_nat (unat (current h) - unat (begin_off h)))) \<and>
   (begin_off h \<noteq> 0xFFFF \<and> begin_off h \<le> end_off h \<longrightarrow>
      Capacity s cpu sc = Inr (of_nat (unat (end_off h) - unat (begin_off h))))"
  using assms
  by (auto simp: Length_def Capacity_def IsLocked_def ucast_sub_of_nat)

theorem Length_Capacity_value_witness:
  "Length slab_example 0 2 = Inr 2 \<and> Capacity slab_example 0 2 = Inr 5 \<and>
   Length (LockHeader slab_example 0 2) 0 2 = Inr 0 \<and>
   Capacity (LockHeader slab_example 0 2) 0 2 = Inr 0"
proof -
  note t = Length_Capacity_value [OF LoadHeader_example]
  note u = Length_Capacity_value [OF LoadHeader_LockHeader [of slab_example 0 2 0 2]]
  have a: "begin_off hdr_example \<noteq> 0xFFFF \<and> begin_off hdr_example \<le> current hdr_example
     \<and> begin_off hdr_example \<le> end_off hdr_example"
    by (simp add: hdr_example_def)
  have b: "Length slab_example 0 2 = Inr (of_nat (unat (current hdr_example) - unat (begin_off hdr_example)))"
    using t a by blast
  have c: "Capacity slab_example 0 2 = Inr (of_nat (unat (end_off hdr_example) - unat (begin_off hdr_example)))"
    using t a by blast
  have d: "Length (LockHeader slab_example 0 2) 0 2 = Inr 0 \<and>
   Capacity (LockHeader slab_example 0 2) 0 2 = Inr 0"
    using u by simp
  show ?thesis using b c d by (simp add: hdr_example_def)
qed

subsection \<open>Push and Pop\<close>

lemma unat_plus_one_lt:
  assumes "(c :: u16) < e"
  shows "unat (c + 1) = unat c + 1"
proof -
  have "unat c < unat e" using assms by (simp add: word_less_nat_alt)
  moreover have "unat e < 2 ^ 16" using unsigned_less [of e] by simp
  ultimately have "unat c + 1 < 2 ^ 16" by simp
  then show ?thesis by (simp add: unat_word_ariths)
qed


lemma mem_store_word:
  "mem (store_word s cpu i v) cpu' j = (if cpu' = cpu \<and> j = i then v else mem s cpu' j)"
  by (simp add: store_word_def)

lemma store_word_fields [simp]:
  "rseq_cpu (store_word s cpu i v) = rseq_cpu s"
  "world (store_word s cpu i v) = world s"
  "num_cpus (store_word s cpu i v) = num_cpus s"
  "slabs_and_shift (store_word s cpu i v) = slabs_and_shift s"
  by (simp_all add: store_word_def)

lemma Internal_Push_fast:
  "current (LoadHeader s (rseq_cpu s) sc) < end_off (LoadHeader s (rseq_cpu s) sc) \<Longrightarrow>
   TcmallocSlab_Internal_Push s sc item oh arg = (0, Push_commit s sc item)"
  by (simp add: TcmallocSlab_Internal_Push_def Push_commit_def Let_def not_le [symmetric])

lemma Internal_Push_overflow:
  "\<not> current (LoadHeader s (rseq_cpu s) sc) < end_off (LoadHeader s (rseq_cpu s) sc) \<Longrightarrow>
   TcmallocSlab_Internal_Push s sc item oh arg = oh (rseq_cpu s) sc item arg s"
  by (simp add: TcmallocSlab_Internal_Push_def Let_def not_less)

lemma Push_commit_header:
  "unat (current (LoadHeader s (rseq_cpu s) sc)) \<noteq> sc \<Longrightarrow>
   LoadHeader (Push_commit s sc item) (rseq_cpu s) sc =
     (LoadHeader s (rseq_cpu s) sc)\<lparr>current := current (LoadHeader s (rseq_cpu s) sc) + 1\<rparr>"
  by (simp add: Push_commit_def Let_def LoadHeader_store_word mem_store_word bit_cast_Header_store16)
     (simp add: LoadHeader_def)

lemma Push_commit_mem:
  "mem (Push_commit s sc item) cpu' j =
     (if cpu' = rseq_cpu s \<and> j = sc
      then store16_current (if unat (current (LoadHeader s (rseq_cpu s) sc)) = sc then item else mem s cpu' sc)
             (current (LoadHeader s (rseq_cpu s) sc) + 1)
      else if cpu' = rseq_cpu s \<and> j = unat (current (LoadHeader s (rseq_cpu s) sc)) then item
      else mem s cpu' j)"
  by (simp add: Push_commit_def Let_def mem_store_word)

lemma Push_commit_fields [simp]:
  "rseq_cpu (Push_commit s sc item) = rseq_cpu s"
  "world (Push_commit s sc item) = world s"
  "num_cpus (Push_commit s sc item) = num_cpus s"
  "slabs_and_shift (Push_commit s sc item) = slabs_and_shift s"
  by (simp_all add: Push_commit_def Let_def)

lemma Internal_Pop_fast:
  "begin_off (LoadHeader s (rseq_cpu s) sc) < current (LoadHeader s (rseq_cpu s) sc) \<Longrightarrow>
   TcmallocSlab_Internal_Pop s sc uh arg =
     (mem s (rseq_cpu s) (unat (current (LoadHeader s (rseq_cpu s) sc)) - 1), Pop_commit s sc)"
  by (simp add: TcmallocSlab_Internal_Pop_def Pop_commit_def Let_def not_le [symmetric])

lemma Internal_Pop_underflow:
  "current (LoadHeader s (rseq_cpu s) sc) \<le> begin_off (LoadHeader s (rseq_cpu s) sc) \<Longrightarrow>
   TcmallocSlab_Internal_Pop s sc uh arg = uh (rseq_cpu s) sc arg s"
  by (simp add: TcmallocSlab_Internal_Pop_def Let_def)

lemma Pop_commit_header:
  "LoadHeader (Pop_commit s sc) (rseq_cpu s) sc =
     (LoadHeader s (rseq_cpu s) sc)\<lparr>current := current (LoadHeader s (rseq_cpu s) sc) - 1\<rparr>"
  by (simp add: Pop_commit_def Let_def LoadHeader_store_word bit_cast_Header_store16)
     (simp add: LoadHeader_def)

lemma Pop_commit_mem:
  "mem (Pop_commit s sc) cpu' j =
     (if cpu' = rseq_cpu s \<and> j = sc
      then store16_current (mem s cpu' sc) (current (LoadHeader s (rseq_cpu s) sc) - 1)
      else mem s cpu' j)"
  by (simp add: Pop_commit_def Let_def mem_store_word)

lemma Pop_commit_fields [simp]:
  "rseq_cpu (Pop_commit s sc) = rseq_cpu s"
  "world (Pop_commit s sc) = world s"
  "num_cpus (Pop_commit s sc) = num_cpus s"
  "slabs_and_shift (Pop_commit s sc) = slabs_and_shift s"
  by (simp_all add: Pop_commit_def Let_def)


lemma rseq_cpu_example: "rseq_cpu slab_example = 0"
  by (simp add: slab_example_def)


lemma rseq_cpu_LockHeader [simp]: "rseq_cpu (LockHeader s cpu sc) = rseq_cpu s"
  by (simp add: LockHeader_def)


text \<open>
  C3: on a thread with an initialised CPU id and for a non-null item, Push commits (stores
  the item to slot \<^verbatim>\<open>current\<close>, stores \<^verbatim>\<open>current + 1\<close>, returns true) when
  \<^verbatim>\<open>current < end\<close>; otherwise, which includes a locked header, it hands the unchanged slab
  to \<^verbatim>\<open>overflow_handler(cpu, size_class, item, arg)\<close> and returns false exactly when the
  handler's value is negative. Pop with \<^verbatim>\<open>current <= begin\<close> hands the unchanged slab to
  the underflow handler and returns its result.
\<close>

theorem Push_Pop_fast_path_or_handler:
  assumes "0 \<le> rseq_cpu s" and "item \<noteq> 0" and "LoadHeader s (rseq_cpu s) sc = h"
  shows
  "(current h < end_off h \<longrightarrow>
      Push s sc item overflow_handler arg = Inr (True, Push_commit s sc item) \<and>
      (unat (current h) \<noteq> sc \<longrightarrow>
         mem (Push_commit s sc item) (rseq_cpu s) (unat (current h)) = item \<and>
         LoadHeader (Push_commit s sc item) (rseq_cpu s) sc = h\<lparr>current := current h + 1\<rparr>)) \<and>
   (\<not> current h < end_off h \<longrightarrow>
      Push s sc item overflow_handler arg =
        Inr (0 \<le> fst (overflow_handler (rseq_cpu s) sc item arg s),
             snd (overflow_handler (rseq_cpu s) sc item arg s))) \<and>
   (begin_off h = 0xFFFF \<and> end_off h = 0 \<longrightarrow> \<not> current h < end_off h) \<and>
   (\<forall>b t. Push s sc item overflow_handler arg = Inr (b, t) \<and> \<not> current h < end_off h \<longrightarrow>
      (\<not> b) = (fst (overflow_handler (rseq_cpu s) sc item arg s) < 0)) \<and>
   (current h \<le> begin_off h \<longrightarrow>
      Pop s sc underflow_handler arg' = Inr (underflow_handler (rseq_cpu s) sc arg' s))"
proof (intro conjI impI allI)
  assume lt: "current h < end_off h"
  then show "Push s sc item overflow_handler arg = Inr (True, Push_commit s sc item)"
    using assms by (simp add: Push_def Internal_Push_fast Let_def)
next
  assume "current h < end_off h" and ne: "unat (current h) \<noteq> sc"
  show "mem (Push_commit s sc item) (rseq_cpu s) (unat (current h)) = item"
    using assms ne by (simp add: Push_commit_mem)
  show "LoadHeader (Push_commit s sc item) (rseq_cpu s) sc = h\<lparr>current := current h + 1\<rparr>"
    using assms ne Push_commit_header [of s sc item] by simp
next
  assume ov: "\<not> current h < end_off h"
  then show "Push s sc item overflow_handler arg =
        Inr (0 \<le> fst (overflow_handler (rseq_cpu s) sc item arg s),
             snd (overflow_handler (rseq_cpu s) sc item arg s))"
    using assms by (simp add: Push_def Internal_Push_overflow Let_def)
next
  assume "begin_off h = 0xFFFF \<and> end_off h = 0"
  then show "\<not> current h < end_off h" by simp
next
  fix b t
  assume "Push s sc item overflow_handler arg = Inr (b, t) \<and> \<not> current h < end_off h"
  then show "(\<not> b) = (fst (overflow_handler (rseq_cpu s) sc item arg s) < 0)"
    using assms by (auto simp: Push_def Internal_Push_overflow Let_def)
next
  assume "current h \<le> begin_off h"
  then show "Pop s sc underflow_handler arg' = Inr (underflow_handler (rseq_cpu s) sc arg' s)"
    using assms by (simp add: Pop_def Internal_Pop_underflow)
qed

theorem Push_Pop_fast_path_or_handler_witness:
  "Push slab_example 2 0x3000 NoopOverflow () = Inr (True, Push_commit slab_example 2 0x3000) \<and>
   mem (Push_commit slab_example 2 0x3000) 0 12 = 0x3000 \<and>
   LoadHeader (Push_commit slab_example 2 0x3000) 0 2 =
     \<lparr>current = 13, end_copy = 15, begin_off = 10, end_off = 15\<rparr> \<and>
   Push (LockHeader slab_example 0 2) 2 0x3000 NoopOverflow () =
     Inr (False, LockHeader slab_example 0 2) \<and>
   Pop (LockHeader slab_example 0 2) 2 NoopUnderflow () = Inr (0, LockHeader slab_example 0 2)"
proof -
  have a: "0 \<le> rseq_cpu slab_example" "(0x3000 :: u64) \<noteq> 0"
    by (simp_all add: rseq_cpu_example)
  have b: "LoadHeader slab_example (rseq_cpu slab_example) 2 = hdr_example"
    by (simp add: rseq_cpu_example LoadHeader_example)
  have c: "current hdr_example < end_off hdr_example" "unat (current hdr_example) \<noteq> 2"
    "unat (current hdr_example) = 12"
    by (simp_all add: hdr_example_def)
  note t = Push_Pop_fast_path_or_handler [OF a b, of NoopOverflow "()" NoopUnderflow "()"]
  have p1: "Push slab_example 2 0x3000 NoopOverflow () =
      Inr (True, Push_commit slab_example 2 0x3000) \<and>
      mem (Push_commit slab_example 2 0x3000) 0 12 = 0x3000 \<and>
      LoadHeader (Push_commit slab_example 2 0x3000) 0 2 =
        hdr_example\<lparr>current := current hdr_example + 1\<rparr>"
    using t c by (simp add: rseq_cpu_example)
  let ?l = "LockHeader slab_example 0 2"
  let ?h = "hdr_example\<lparr>begin_off := 0xFFFF, end_off := 0\<rparr>"
  have a': "0 \<le> rseq_cpu ?l" by (simp add: rseq_cpu_example)
  have b': "LoadHeader ?l (rseq_cpu ?l) 2 = ?h"
    by (simp add: rseq_cpu_example LoadHeader_LockHeader LoadHeader_example)
  have c': "\<not> current ?h < end_off ?h" "current ?h \<le> begin_off ?h"
    by (simp_all add: hdr_example_def)
  note u = Push_Pop_fast_path_or_handler [OF a' a(2) b', of NoopOverflow "()" NoopUnderflow "()"]
  have p2: "Push ?l 2 0x3000 NoopOverflow () = Inr (False, ?l) \<and>
            Pop ?l 2 NoopUnderflow () = Inr (0, ?l)"
    using u c' by (simp add: NoopOverflow_def NoopUnderflow_def)
  show ?thesis using p1 p2 by (simp add: hdr_example_def)
qed

lemma pop_n_append:
  "pop_n s sc n uh arg = Inr (rs, s1) \<Longrightarrow> Pop s1 sc uh arg = Inr (r, s2) \<Longrightarrow>
   pop_n s sc (Suc n) uh arg = Inr (rs @ [r], s2)"
proof (induction n arbitrary: s rs)
  case 0
  then show ?case by simp
next
  case (Suc n)
  from Suc.prems(1) obtain r0 t rs0 where
    p: "Pop s sc uh arg = Inr (r0, t)" and q: "pop_n t sc n uh arg = Inr (rs0, s1)"
    and rs: "rs = r0 # rs0"
    by (auto split: sum.splits)
  from Suc.IH [OF q Suc.prems(2)] have "pop_n t sc (Suc n) uh arg = Inr (rs0 @ [r], s2)" .
  then show ?case using p rs by (simp del: pop_n.simps add: pop_n.simps(2) [of s])
qed

lemma push_pop_lifo:
  assumes "0 \<le> rseq_cpu s"
    and "LoadHeader s (rseq_cpu s) sc = h"
    and "begin_off h \<le> current h"
    and "unat (current h) + length items \<le> unat (end_off h)"
    and "sc < unat (begin_off h)"
    and "\<forall>x \<in> set items. x \<noteq> 0"
  shows "\<exists>s1 s2.
     push_all s sc items oh arg = Inr (replicate (length items) True, s1) \<and>
     LoadHeader s1 (rseq_cpu s) sc =
       h\<lparr>current := current h + of_nat (length items)\<rparr> \<and>
     pop_n s1 sc (length items) uh arg' = Inr (rev items, s2) \<and>
     LoadHeader s2 (rseq_cpu s) sc = h \<and> rseq_cpu s2 = rseq_cpu s \<and>
     (\<forall>i. i < unat (current h) \<and> i \<noteq> sc \<longrightarrow> mem s2 (rseq_cpu s) i = mem s (rseq_cpu s) i)"
  using assms
proof (induction items arbitrary: s h)
  case Nil
  then show ?case by simp
next
  case (Cons x xs)
  let ?c = "rseq_cpu s"
  let ?t = "Push_commit s sc x"
  have lt: "current h < end_off h"
    using Cons.prems(4) by (simp add: word_less_nat_alt)
  have ne: "unat (current h) \<noteq> sc"
    using Cons.prems(3,5) by (simp add: word_le_nat_alt)
  have x0: "x \<noteq> 0" using Cons.prems(6) by simp
  have push: "Push s sc x oh arg = Inr (True, ?t)"
    using Cons.prems(1,2) lt x0 by (simp add: Push_def Internal_Push_fast Let_def)
  have hdr_t: "LoadHeader ?t (rseq_cpu ?t) sc = h\<lparr>current := current h + 1\<rparr>"
    using Push_commit_header [of s sc x] Cons.prems(2) ne by simp
  have u1: "unat (current h + 1) = unat (current h) + 1"
    using lt by (rule unat_plus_one_lt)
  have le1: "current h \<le> current h + 1"
    using u1 by (simp add: word_le_nat_alt)
  let ?h1 = "h\<lparr>current := current h + 1\<rparr>"
  have ih_pre:
    "0 \<le> rseq_cpu ?t" "begin_off ?h1 \<le> current ?h1"
    "unat (current ?h1) + length xs \<le> unat (end_off ?h1)"
    "sc < unat (begin_off ?h1)" "\<forall>x \<in> set xs. x \<noteq> 0"
    using Cons.prems le1 u1 by auto
  from Cons.IH [OF ih_pre(1) hdr_t ih_pre(2-5)]
  obtain s1 s2 where
    pa: "push_all ?t sc xs oh arg = Inr (replicate (length xs) True, s1)" and
    h1: "LoadHeader s1 ?c sc = ?h1\<lparr>current := current ?h1 + of_nat (length xs)\<rparr>" and
    pn: "pop_n s1 sc (length xs) uh arg' = Inr (rev xs, s2)" and
    h2: "LoadHeader s2 ?c sc = ?h1" and
    c2: "rseq_cpu s2 = ?c" and
    fr: "\<forall>i. i < unat (current ?h1) \<and> i \<noteq> sc \<longrightarrow> mem s2 ?c i = mem ?t ?c i"
    by auto
  have slot: "mem s2 ?c (unat (current h)) = x"
    using fr u1 ne Cons.prems(2) by (simp add: Push_commit_mem)
  have gt: "begin_off (LoadHeader s2 (rseq_cpu s2) sc) < current (LoadHeader s2 (rseq_cpu s2) sc)"
    using h2 c2 Cons.prems(3) u1 by (simp add: word_less_nat_alt word_le_nat_alt)
  have pop: "Pop s2 sc uh arg' = Inr (x, Pop_commit s2 sc)"
    using Internal_Pop_fast [OF gt, of uh arg'] Cons.prems(1) c2 h2 u1 slot
    by (simp add: Pop_def)
  have pn': "pop_n s1 sc (length (x # xs)) uh arg' = Inr (rev (x # xs), Pop_commit s2 sc)"
    using pop_n_append [OF pn pop] by simp
  have h3: "LoadHeader (Pop_commit s2 sc) ?c sc = h"
    using Pop_commit_header [of s2 sc] c2 h2 by simp
  have fr3: "\<forall>i. i < unat (current h) \<and> i \<noteq> sc \<longrightarrow>
               mem (Pop_commit s2 sc) ?c i = mem s ?c i"
    using fr u1 Cons.prems(2) by (simp add: Pop_commit_mem Push_commit_mem c2)
  have pa': "push_all s sc (x # xs) oh arg = Inr (replicate (length (x # xs)) True, s1)"
    using push pa by simp
  have h1': "LoadHeader s1 ?c sc = h\<lparr>current := current h + of_nat (length (x # xs))\<rparr>"
    using h1 by (simp add: add.assoc)
  show ?case
    using pa' h1' pn' h3 fr3 c2 by (intro exI [of _ s1] exI [of _ "Pop_commit s2 sc"]) simp
qed

text \<open>
  C1: on a sub-slab whose slots lie above its header word, with \<^verbatim>\<open>begin <= current\<close> and
  room for the items, pushing the items of a list in turn and then popping as many
  returns them in reverse order and restores the header, with no handler called; a Push
  followed at once by a Pop returns the item pushed.
\<close>

theorem Push_Pop_LIFO:
  assumes "0 \<le> rseq_cpu s"
    and "LoadHeader s (rseq_cpu s) sc = h"
    and "begin_off h \<le> current h"
    and "sc < unat (begin_off h)"
  shows
  "(unat (current h) + length items \<le> unat (end_off h) \<and> (\<forall>x \<in> set items. x \<noteq> 0) \<longrightarrow>
     (\<exists>s1 s2.
        push_all s sc items overflow_handler arg = Inr (replicate (length items) True, s1) \<and>
        pop_n s1 sc (length items) underflow_handler arg' = Inr (rev items, s2) \<and>
        LoadHeader s2 (rseq_cpu s) sc = h)) \<and>
   (current h < end_off h \<and> item \<noteq> 0 \<longrightarrow>
     (\<exists>s1 s2.
        Push s sc item overflow_handler arg = Inr (True, s1) \<and>
        Pop s1 sc underflow_handler arg' = Inr (item, s2) \<and>
        LoadHeader s2 (rseq_cpu s) sc = h))"
proof (intro conjI impI)
  assume a: "unat (current h) + length items \<le> unat (end_off h) \<and> (\<forall>x \<in> set items. x \<noteq> 0)"
  from push_pop_lifo [OF assms(1,2,3) conjunct1 [OF a] assms(4) conjunct2 [OF a],
      of overflow_handler arg underflow_handler arg']
  show "\<exists>s1 s2.
        push_all s sc items overflow_handler arg = Inr (replicate (length items) True, s1) \<and>
        pop_n s1 sc (length items) underflow_handler arg' = Inr (rev items, s2) \<and>
        LoadHeader s2 (rseq_cpu s) sc = h"
    by blast
next
  assume b: "current h < end_off h \<and> item \<noteq> 0"
  then have c: "unat (current h) + length [item] \<le> unat (end_off h)"
    by (simp add: word_less_nat_alt)
  have d: "\<forall>x \<in> set [item]. x \<noteq> 0" using b by simp
  from push_pop_lifo [OF assms(1,2,3) c assms(4) d, of overflow_handler arg underflow_handler arg']
  obtain s1 s2 where
    p: "push_all s sc [item] overflow_handler arg = Inr ([True], s1)" and
    q: "pop_n s1 sc (Suc 0) underflow_handler arg' = Inr ([item], s2)" and
    r: "LoadHeader s2 (rseq_cpu s) sc = h"
    by auto
  from p have p': "Push s sc item overflow_handler arg = Inr (True, s1)"
    by (auto split: sum.splits)
  from q have q': "Pop s1 sc underflow_handler arg' = Inr (item, s2)"
    by (auto split: sum.splits)
  from p' q' r show "\<exists>s1 s2.
        Push s sc item overflow_handler arg = Inr (True, s1) \<and>
        Pop s1 sc underflow_handler arg' = Inr (item, s2) \<and>
        LoadHeader s2 (rseq_cpu s) sc = h"
    by blast
qed

theorem Push_Pop_LIFO_witness:
  "(\<exists>s1 s2.
      push_all slab_example 2 [0x3000, 0x4000, 0x5000] NoopOverflow () =
        Inr ([True, True, True], s1) \<and>
      pop_n s1 2 3 NoopUnderflow () = Inr ([0x5000, 0x4000, 0x3000], s2) \<and>
      LoadHeader s2 0 2 = hdr_example) \<and>
   (\<exists>s1 s2.
      Push slab_example 2 0x3000 NoopOverflow () = Inr (True, s1) \<and>
      Pop s1 2 NoopUnderflow () = Inr (0x3000, s2) \<and>
      LoadHeader s2 0 2 = hdr_example)"
proof -
  have a: "0 \<le> rseq_cpu slab_example" by (simp add: rseq_cpu_example)
  have b: "LoadHeader slab_example (rseq_cpu slab_example) 2 = hdr_example"
    by (simp add: rseq_cpu_example LoadHeader_example)
  have c: "begin_off hdr_example \<le> current hdr_example" by (simp add: hdr_example_def)
  have d: "2 < unat (begin_off hdr_example)" by (simp add: hdr_example_def)
  have e: "unat (current hdr_example) + length [0x3000, 0x4000, 0x5000 :: u64]
             \<le> unat (end_off hdr_example) \<and>
           (\<forall>x \<in> set [0x3000, 0x4000, 0x5000 :: u64]. x \<noteq> 0)"
    by (simp add: hdr_example_def)
  have f: "current hdr_example < end_off hdr_example \<and> (0x3000 :: u64) \<noteq> 0"
    by (simp add: hdr_example_def)
  note t = Push_Pop_LIFO [OF a b c d,
      of "[0x3000, 0x4000, 0x5000]" NoopOverflow "()" NoopUnderflow "()" "0x3000"]
  show ?thesis
    using t e f by (simp add: rseq_cpu_example numeral_3_eq_3)
qed

subsection \<open>Grow and Shrink\<close>

lemma IsLocked_unlocked: "begin_off h \<noteq> 0xFFFF \<Longrightarrow> IsLocked h = Inr False"
  by (simp add: IsLocked_def)

lemma IsLocked_locked: "begin_off h = 0xFFFF \<Longrightarrow> end_off h = 0 \<Longrightarrow> IsLocked h = Inr True"
  by (simp add: IsLocked_def)

lemma CompareAndSwapHeader_commit:
  "rseq_cpu s = cpu \<Longrightarrow>
   CompareAndSwapHeader s cpu sc (LoadHeader s cpu sc) hdr = (cpu, StoreHeader s cpu sc hdr)"
  by (simp add: CompareAndSwapHeader_def LoadHeader_def)

lemma CompareAndSwapHeader_other_cpu:
  "rseq_cpu s \<noteq> cpu \<Longrightarrow>
   CompareAndSwapHeader s cpu sc old hdr = (rseq_cpu s, s)"
  by (simp add: CompareAndSwapHeader_def)

lemma Grow_loop_locked:
  "LoadHeader s cpu sc = h \<Longrightarrow> begin_off h = 0xFFFF \<Longrightarrow> end_off h = 0 \<Longrightarrow>
   Grow_loop s cpu sc len max_cap = Some (Inr (0, s))"
  by (subst Grow_loop.simps) (simp add: IsLocked_locked)

lemma Grow_loop_refuse:
  "LoadHeader s cpu sc = h \<Longrightarrow> begin_off h \<noteq> 0xFFFF \<Longrightarrow>
   ucast (end_off h) - ucast (begin_off h) = max_cap \<or> begin_off h = 0 \<Longrightarrow>
   Grow_loop s cpu sc len max_cap = Some (Inr (0, s))"
  by (subst Grow_loop.simps) (auto simp: IsLocked_unlocked)

lemma Grow_loop_commit:
  assumes "LoadHeader s cpu sc = h" and "begin_off h \<noteq> 0xFFFF" and "begin_off h \<noteq> 0"
    and "ucast (end_off h) - ucast (begin_off h) \<noteq> max_cap" and "rseq_cpu s = cpu"
  shows "Grow_loop s cpu sc len max_cap =
     Some (Inr (ucast (Grow_n h len max_cap),
                StoreHeader s cpu sc
                  (h\<lparr>end_off := end_off h + Grow_n h len max_cap,
                     end_copy := end_copy h + Grow_n h len max_cap\<rparr>)))"
proof -
  have cas: "CompareAndSwapHeader s cpu sc h hdr = (cpu, StoreHeader s cpu sc hdr)" for hdr
    using CompareAndSwapHeader_commit [OF assms(5), of sc hdr] assms(1) by simp
  show ?thesis
    using assms(1-4)
    by (subst Grow_loop.simps) (simp add: IsLocked_unlocked Let_def Grow_n_def cas)
qed

lemma Grow_loop_other_cpu:
  "LoadHeader s cpu sc = h \<Longrightarrow> begin_off h \<noteq> 0xFFFF \<Longrightarrow>
   rseq_cpu s \<noteq> cpu \<Longrightarrow> 0 \<le> rseq_cpu s \<Longrightarrow>
   Grow_loop s cpu sc len max_cap = Some (Inr (0, s))"
  apply (subst Grow_loop.simps)
  apply (simp add: IsLocked_unlocked Let_def CompareAndSwapHeader_other_cpu)
  done

lemma unat_ucast_64_16: "unat (ucast (x :: u64) :: u16) = unat x mod 2 ^ 16"
  by (simp add: unsigned_ucast_eq take_bit_eq_mod)

lemma unat_min_word: "unat (min (a :: 'a::len word) b) = min (unat a) (unat b)"
  by (simp add: min_def word_le_nat_alt)


lemma Grow_n_wellformed:
  assumes "begin_off h \<le> end_off h"
    and "unat (end_off h) - unat (begin_off h) \<le> unat max_cap"
    and "unat (begin_off h) + unat max_cap < 2 ^ 16"
  shows "unat (Grow_n h len max_cap) =
           min (unat len mod 2 ^ 16) (unat max_cap - (unat (end_off h) - unat (begin_off h)))"
    and "unat (end_off h + Grow_n h len max_cap) = unat (end_off h) + unat (Grow_n h len max_cap)"
    and "unat (end_off h + Grow_n h len max_cap) - unat (begin_off h) \<le> unat max_cap"
proof -
  let ?cap = "ucast (end_off h) - ucast (begin_off h) :: u64"
  have cap: "unat ?cap = unat (end_off h) - unat (begin_off h)"
    using assms(1) by (rule unat_ucast_sub_16_64)
  have le: "?cap \<le> max_cap"
    using assms(2) cap by (simp add: word_le_nat_alt)
  have room: "unat (max_cap - ?cap) = unat max_cap - (unat (end_off h) - unat (begin_off h))"
    using le cap by (simp add: unat_sub)
  have small: "unat (max_cap - ?cap) < 2 ^ 16"
    using room assms(3) by simp
  show n: "unat (Grow_n h len max_cap) =
           min (unat len mod 2 ^ 16) (unat max_cap - (unat (end_off h) - unat (begin_off h)))"
    unfolding Grow_n_def unat_min_word unat_ucast_64_16
    using room small by simp
  have be: "unat (begin_off h) \<le> unat (end_off h)"
    using assms(1) by (simp add: word_le_nat_alt)
  have "unat (Grow_n h len max_cap) \<le> unat max_cap - (unat (end_off h) - unat (begin_off h))"
    using n by simp
  then have sum: "unat (end_off h) + unat (Grow_n h len max_cap) < 2 ^ 16"
    using be assms(2,3) by linarith
  then show e: "unat (end_off h + Grow_n h len max_cap) =
      unat (end_off h) + unat (Grow_n h len max_cap)"
    by (simp add: unat_word_ariths)
  have n_le: "unat (Grow_n h len max_cap) \<le> unat max_cap - (unat (end_off h) - unat (begin_off h))"
    using n by simp
  show "unat (end_off h + Grow_n h len max_cap) - unat (begin_off h) \<le> unat max_cap"
    using e n_le be assms(2) by linarith
qed

text \<open>
  C4 (amended): Grow returns 0 and changes nothing when the header is locked, when
  \<^verbatim>\<open>end - begin\<close> equals \<^verbatim>\<open>max_capacity(shift)\<close>, when \<^verbatim>\<open>begin == 0\<close>, or when the thread
  is on another CPU. Otherwise, on \<open>cpu\<close>, it adds to \<^verbatim>\<open>end\<close> and \<^verbatim>\<open>end_copy\<close> and
  returns \<open>n\<close>, the smaller of \<open>len\<close> and \<^verbatim>\<open>max_capacity(shift) - (end - begin)\<close> after
  both are cut to 16 bits. In a layout with \<^verbatim>\<open>begin <= end\<close>,
  \<^verbatim>\<open>end - begin <= max_capacity(shift)\<close> and \<^verbatim>\<open>begin + max_capacity(shift) < 2^16\<close> this
  \<open>n\<close> is the smaller of \<open>len mod 2^16\<close> and the room left, and \<^verbatim>\<open>end - begin\<close> stays
  within \<^verbatim>\<open>max_capacity(shift)\<close>.
\<close>

theorem Grow_increment:
  assumes "LoadHeader s cpu sc = h" and "max_capacity (GetShift s) = max_cap"
    and "n = min (ucast len :: u16) (ucast (max_cap - (ucast (end_off h) - ucast (begin_off h))))"
  shows
  "(begin_off h = 0xFFFF \<and> end_off h = 0 \<longrightarrow>
      Grow s cpu sc len max_capacity = Some (Inr (0, s))) \<and>
   (begin_off h \<noteq> 0xFFFF \<and>
      (ucast (end_off h) - ucast (begin_off h) = max_cap \<or> begin_off h = 0) \<longrightarrow>
      Grow s cpu sc len max_capacity = Some (Inr (0, s))) \<and>
   (begin_off h \<noteq> 0xFFFF \<and> rseq_cpu s \<noteq> cpu \<and> 0 \<le> rseq_cpu s \<longrightarrow>
      Grow s cpu sc len max_capacity = Some (Inr (0, s))) \<and>
   (begin_off h \<noteq> 0xFFFF \<and> begin_off h \<noteq> 0 \<and>
      ucast (end_off h) - ucast (begin_off h) \<noteq> max_cap \<and> rseq_cpu s = cpu \<longrightarrow>
      Grow s cpu sc len max_capacity =
        Some (Inr (ucast n,
          StoreHeader s cpu sc (h\<lparr>end_off := end_off h + n, end_copy := end_copy h + n\<rparr>)))) \<and>
   (begin_off h \<le> end_off h \<and> unat (end_off h) - unat (begin_off h) \<le> unat max_cap \<and>
      unat (begin_off h) + unat max_cap < 2 ^ 16 \<longrightarrow>
      unat n = min (unat len mod 2 ^ 16) (unat max_cap - (unat (end_off h) - unat (begin_off h))) \<and>
      unat (end_off h + n) = unat (end_off h) + unat n \<and>
      unat (end_off h + n) - unat (begin_off h) \<le> unat max_cap)"
proof -
  have n: "n = Grow_n h len max_cap" using assms(3) by (simp add: Grow_n_def)
  show ?thesis
    unfolding Grow_def assms(2) n
    using Grow_loop_locked [OF assms(1), of len max_cap]
      Grow_loop_refuse [OF assms(1), of max_cap len]
      Grow_loop_other_cpu [OF assms(1), of len max_cap]
      Grow_loop_commit [OF assms(1), of max_cap len]
      Grow_n_wellformed [of h max_cap len]
    by blast
qed

theorem Grow_increment_witness:
  "Grow slab_example 0 2 3 (\<lambda>shift. 10) =
     Some (Inr (3, StoreHeader slab_example 0 2
                     \<lparr>current = 12, end_copy = 18, begin_off = 10, end_off = 18\<rparr>)) \<and>
   Grow slab_example 0 2 65537 (\<lambda>shift. 10) =
     Some (Inr (1, StoreHeader slab_example 0 2
                     \<lparr>current = 12, end_copy = 16, begin_off = 10, end_off = 16\<rparr>)) \<and>
   Grow slab_example 0 2 3 (\<lambda>shift. 5) = Some (Inr (0, slab_example)) \<and>
   Grow slab_example 1 2 3 (\<lambda>shift. 10) = Some (Inr (0, slab_example)) \<and>
   Grow (LockHeader slab_example 0 2) 0 2 3 (\<lambda>shift. 10) =
     Some (Inr (0, LockHeader slab_example 0 2)) \<and>
   unat (end_off hdr_example + 3) - unat (begin_off hdr_example) \<le> unat (10 :: u64)"
proof -
  have w: "begin_off hdr_example \<le> end_off hdr_example \<and>
      unat (end_off hdr_example) - unat (begin_off hdr_example) \<le> unat (10 :: u64) \<and>
      unat (begin_off hdr_example) + unat (10 :: u64) < 2 ^ 16"
    by (simp add: hdr_example_def)
  have c: "begin_off hdr_example \<noteq> 0xFFFF \<and> begin_off hdr_example \<noteq> 0 \<and>
    (ucast (end_off hdr_example) - ucast (begin_off hdr_example) :: u64) \<noteq> 10 \<and>
    rseq_cpu slab_example = 0"
    by (simp add: hdr_example_def rseq_cpu_example)
  have n3: "min (ucast (3 :: u64) :: u16)
              (ucast (10 - (ucast (end_off hdr_example) - ucast (begin_off hdr_example) :: u64))) = 3"
    by (simp add: hdr_example_def)
  have n1: "min (ucast (65537 :: u64) :: u16)
              (ucast (10 - (ucast (end_off hdr_example) - ucast (begin_off hdr_example) :: u64))) = 1"
    by (simp add: hdr_example_def)
  have g3: "Grow slab_example 0 2 3 (\<lambda>shift. 10) =
     Some (Inr (ucast (3 :: u16), StoreHeader slab_example 0 2
       (hdr_example\<lparr>end_off := end_off hdr_example + 3, end_copy := end_copy hdr_example + 3\<rparr>)))"
    using Grow_increment [where max_capacity = "\<lambda>shift. 10" and len = 3, OF LoadHeader_example refl n3 [symmetric]] c
    by blast
  have g1: "Grow slab_example 0 2 65537 (\<lambda>shift. 10) =
     Some (Inr (ucast (1 :: u16), StoreHeader slab_example 0 2
       (hdr_example\<lparr>end_off := end_off hdr_example + 1, end_copy := end_copy hdr_example + 1\<rparr>)))"
    using Grow_increment [where max_capacity = "\<lambda>shift. 10" and len = 65537, OF LoadHeader_example refl n1 [symmetric]] c
    by blast
  have r: "begin_off hdr_example \<noteq> 0xFFFF \<and>
    (ucast (end_off hdr_example) - ucast (begin_off hdr_example) :: u64) = 5"
    by (simp add: hdr_example_def)
  have g0: "Grow slab_example 0 2 3 (\<lambda>shift. 5) = Some (Inr (0, slab_example))"
    using Grow_increment [where max_capacity = "\<lambda>shift. 5" and len = 3, OF LoadHeader_example refl refl] r
    by blast
  have l1: "LoadHeader slab_example 1 2 = bit_cast_Header 0"
    by (simp add: LoadHeader_def slab_example_def)
  have z: "begin_off (bit_cast_Header 0) \<noteq> 0xFFFF \<and> begin_off (bit_cast_Header 0) = 0"
    by (simp add: bit_cast_Header_def)
  have go: "Grow slab_example 1 2 3 (\<lambda>shift. 10) = Some (Inr (0, slab_example))"
    using Grow_increment [where max_capacity = "\<lambda>shift. 10" and len = 3, OF l1 refl refl] z
    by blast
  have lk: "LoadHeader (LockHeader slab_example 0 2) 0 2 =
      hdr_example\<lparr>begin_off := 0xFFFF, end_off := 0\<rparr>"
    by (simp add: LoadHeader_LockHeader LoadHeader_example)
  have gl: "Grow (LockHeader slab_example 0 2) 0 2 3 (\<lambda>shift. 10) =
     Some (Inr (0, LockHeader slab_example 0 2))"
    using Grow_increment [where max_capacity = "\<lambda>shift. 10" and len = 3, OF lk refl refl]
    by simp
  have wf: "unat (end_off hdr_example + 3) - unat (begin_off hdr_example) \<le> unat (10 :: u64)"
    using Grow_increment [where max_capacity = "\<lambda>shift. 10" and len = 3, OF LoadHeader_example refl n3 [symmetric]] w
    by blast
  show ?thesis
    using g3 g1 g0 go gl wf by (simp add: hdr_example_def)
qed

text \<open>C4 as stated fails for a length of 16 bits or more: with room for 5 more slots,
  \<^verbatim>\<open>Grow(0, 2, 65537, ...)\<close> grows by 1, not by \<open>min(65537, 5)\<close>.\<close>

theorem Grow_min_len_counterexample:
  "Grow slab_example 0 2 65537 (\<lambda>shift. 10) =
     Some (Inr (1, StoreHeader slab_example 0 2
                     \<lparr>current = 12, end_copy = 16, begin_off = 10, end_off = 16\<rparr>)) \<and>
   min (65537 :: nat) (10 - (unat (end_off hdr_example) - unat (begin_off hdr_example))) = 5"
proof -
  have a: "unat (end_off hdr_example) - unat (begin_off hdr_example) = 5"
    by (simp add: hdr_example_def)
  have b: "Grow_n hdr_example 65537 10 = 1"
    by (simp add: Grow_n_def hdr_example_def)
  have c: "begin_off hdr_example \<noteq> 0xFFFF" "begin_off hdr_example \<noteq> 0"
    "(ucast (end_off hdr_example) - ucast (begin_off hdr_example) :: u64) \<noteq> 10"
    by (simp_all add: hdr_example_def)
  have "Grow slab_example 0 2 65537 (\<lambda>shift. 10) =
     Some (Inr (1, StoreHeader slab_example 0 2
       (hdr_example\<lparr>end_off := end_off hdr_example + 1, end_copy := end_copy hdr_example + 1\<rparr>)))"
    unfolding Grow_def
    using Grow_loop_commit [OF LoadHeader_example c rseq_cpu_example, of 65537] b by simp
  then show ?thesis using a by (simp add: hdr_example_def)
qed


lemma Shrink_locked:
  "LoadHeader s cpu sc = h \<Longrightarrow> begin_off h = 0xFFFF \<Longrightarrow> end_off h = 0 \<Longrightarrow>
   Shrink s cpu sc len = Some (Inr (0, s))"
  by (subst Shrink.simps) (simp add: IsLocked_locked)

lemma Shrink_refuse:
  "LoadHeader s cpu sc = h \<Longrightarrow> begin_off h \<noteq> 0xFFFF \<Longrightarrow>
   current h = end_off h \<or> begin_off h = 0 \<Longrightarrow>
   Shrink s cpu sc len = Some (Inr (0, s))"
  by (subst Shrink.simps) (auto simp: IsLocked_unlocked)

lemma Shrink_commit:
  assumes "LoadHeader s cpu sc = h" and "begin_off h \<noteq> 0xFFFF" and "begin_off h \<noteq> 0"
    and "current h \<noteq> end_off h" and "rseq_cpu s = cpu"
  shows "Shrink s cpu sc len =
     Some (Inr (ucast (Shrink_n h len),
                StoreHeader s cpu sc
                  (h\<lparr>end_off := end_off h - Shrink_n h len,
                     end_copy := end_copy h - Shrink_n h len\<rparr>)))"
proof -
  have cas: "CompareAndSwapHeader s cpu sc h hdr = (cpu, StoreHeader s cpu sc hdr)" for hdr
    using CompareAndSwapHeader_commit [OF assms(5), of sc hdr] assms(1) by simp
  show ?thesis
    using assms(1-4)
    by (subst Shrink.simps) (simp add: IsLocked_unlocked Let_def Shrink_n_def cas)
qed

lemma Shrink_other_cpu:
  "LoadHeader s cpu sc = h \<Longrightarrow> begin_off h \<noteq> 0xFFFF \<Longrightarrow>
   rseq_cpu s \<noteq> cpu \<Longrightarrow> 0 \<le> rseq_cpu s \<Longrightarrow>
   Shrink s cpu sc len = Some (Inr (0, s))"
  apply (subst Shrink.simps)
  apply (simp add: IsLocked_unlocked Let_def CompareAndSwapHeader_other_cpu)
  done

lemma Shrink_n_wellformed:
  assumes "current h \<le> end_off h"
  shows "unat (Shrink_n h len) = min (unat len mod 2 ^ 16) (unat (end_off h) - unat (current h))"
    and "unat (end_off h - Shrink_n h len) = unat (end_off h) - unat (Shrink_n h len)"
    and "current h \<le> end_off h - Shrink_n h len"
proof -
  show n: "unat (Shrink_n h len) =
      min (unat len mod 2 ^ 16) (unat (end_off h) - unat (current h))"
    unfolding Shrink_n_def unat_min_word unat_ucast_64_16
    using assms by (simp add: unat_sub)
  have ce: "unat (current h) \<le> unat (end_off h)"
    using assms by (simp add: word_le_nat_alt)
  have n_le: "unat (Shrink_n h len) \<le> unat (end_off h) - unat (current h)"
    using n by simp
  then have "Shrink_n h len \<le> end_off h"
    using ce by (simp add: word_le_nat_alt)
  then show e: "unat (end_off h - Shrink_n h len) = unat (end_off h) - unat (Shrink_n h len)"
    by (rule unat_sub)
  show "current h \<le> end_off h - Shrink_n h len"
    using e n_le ce by (simp add: word_le_nat_alt)
qed

text \<open>
  C5 (amended): Shrink returns 0 and changes nothing when the header is locked, when
  \<^verbatim>\<open>current == end\<close>, when \<^verbatim>\<open>begin == 0\<close>, or when the thread is on another CPU.
  Otherwise, on \<open>cpu\<close>, it takes from \<^verbatim>\<open>end\<close> and \<^verbatim>\<open>end_copy\<close> and returns \<open>n\<close>, the
  smaller of \<open>len\<close> cut to 16 bits and \<^verbatim>\<open>end - current\<close>; with \<^verbatim>\<open>current <= end\<close> that is
  the smaller of \<open>len mod 2^16\<close> and \<^verbatim>\<open>end - current\<close>, and the new \<^verbatim>\<open>end\<close> is not below
  \<^verbatim>\<open>current\<close>.
\<close>

theorem Shrink_decrement:
  assumes "LoadHeader s cpu sc = h"
    and "n = min (ucast len :: u16) (end_off h - current h)"
  shows
  "(begin_off h = 0xFFFF \<and> end_off h = 0 \<longrightarrow> Shrink s cpu sc len = Some (Inr (0, s))) \<and>
   (begin_off h \<noteq> 0xFFFF \<and> (current h = end_off h \<or> begin_off h = 0) \<longrightarrow>
      Shrink s cpu sc len = Some (Inr (0, s))) \<and>
   (begin_off h \<noteq> 0xFFFF \<and> rseq_cpu s \<noteq> cpu \<and> 0 \<le> rseq_cpu s \<longrightarrow>
      Shrink s cpu sc len = Some (Inr (0, s))) \<and>
   (begin_off h \<noteq> 0xFFFF \<and> begin_off h \<noteq> 0 \<and> current h \<noteq> end_off h \<and> rseq_cpu s = cpu \<longrightarrow>
      Shrink s cpu sc len =
        Some (Inr (ucast n,
          StoreHeader s cpu sc (h\<lparr>end_off := end_off h - n, end_copy := end_copy h - n\<rparr>)))) \<and>
   (current h \<le> end_off h \<longrightarrow>
      unat n = min (unat len mod 2 ^ 16) (unat (end_off h) - unat (current h)) \<and>
      unat (end_off h - n) = unat (end_off h) - unat n \<and>
      current h \<le> end_off h - n)"
proof -
  have n: "n = Shrink_n h len" using assms(2) by (simp add: Shrink_n_def)
  show ?thesis
    unfolding n
    using Shrink_locked [OF assms(1), of len]
      Shrink_refuse [OF assms(1), of len]
      Shrink_other_cpu [OF assms(1), of len]
      Shrink_commit [OF assms(1), of len]
      Shrink_n_wellformed [of h len]
    by blast
qed

theorem Shrink_decrement_witness:
  "Shrink slab_example 0 2 2 =
     Some (Inr (2, StoreHeader slab_example 0 2
                     \<lparr>current = 12, end_copy = 13, begin_off = 10, end_off = 13\<rparr>)) \<and>
   Shrink slab_example 0 2 7 =
     Some (Inr (3, StoreHeader slab_example 0 2
                     \<lparr>current = 12, end_copy = 12, begin_off = 10, end_off = 12\<rparr>)) \<and>
   Shrink slab_example 1 2 2 = Some (Inr (0, slab_example)) \<and>
   Shrink (LockHeader slab_example 0 2) 0 2 2 = Some (Inr (0, LockHeader slab_example 0 2)) \<and>
   current hdr_example \<le> end_off hdr_example - 3"
proof -
  have c: "begin_off hdr_example \<noteq> 0xFFFF \<and> begin_off hdr_example \<noteq> 0 \<and>
    current hdr_example \<noteq> end_off hdr_example \<and> rseq_cpu slab_example = 0"
    by (simp add: hdr_example_def rseq_cpu_example)
  have n2: "min (ucast (2 :: u64) :: u16) (end_off hdr_example - current hdr_example) = 2"
    by (simp add: hdr_example_def)
  have n3: "min (ucast (7 :: u64) :: u16) (end_off hdr_example - current hdr_example) = 3"
    by (simp add: hdr_example_def)
  have s2: "Shrink slab_example 0 2 2 =
     Some (Inr (ucast (2 :: u16), StoreHeader slab_example 0 2
       (hdr_example\<lparr>end_off := end_off hdr_example - 2, end_copy := end_copy hdr_example - 2\<rparr>)))"
    using Shrink_decrement [where len = 2, OF LoadHeader_example n2 [symmetric]] c by blast
  have s3: "Shrink slab_example 0 2 7 =
     Some (Inr (ucast (3 :: u16), StoreHeader slab_example 0 2
       (hdr_example\<lparr>end_off := end_off hdr_example - 3, end_copy := end_copy hdr_example - 3\<rparr>)))"
    using Shrink_decrement [where len = 7, OF LoadHeader_example n3 [symmetric]] c by blast
  have w: "current hdr_example \<le> end_off hdr_example"
    by (simp add: hdr_example_def)
  have wf: "current hdr_example \<le> end_off hdr_example - 3"
    using Shrink_decrement [where len = 7, OF LoadHeader_example n3 [symmetric]] w by blast
  have l1: "LoadHeader slab_example 1 2 = bit_cast_Header 0"
    by (simp add: LoadHeader_def slab_example_def)
  have z: "begin_off (bit_cast_Header 0) \<noteq> 0xFFFF \<and> begin_off (bit_cast_Header 0) = 0"
    by (simp add: bit_cast_Header_def)
  have so: "Shrink slab_example 1 2 2 = Some (Inr (0, slab_example))"
    using Shrink_decrement [where len = 2, OF l1 refl] z by blast
  have lk: "LoadHeader (LockHeader slab_example 0 2) 0 2 =
      hdr_example\<lparr>begin_off := 0xFFFF, end_off := 0\<rparr>"
    by (simp add: LoadHeader_LockHeader LoadHeader_example)
  have sl: "Shrink (LockHeader slab_example 0 2) 0 2 2 =
     Some (Inr (0, LockHeader slab_example 0 2))"
    using Shrink_decrement [where len = 2, OF lk refl] by simp
  show ?thesis
    using s2 s3 so sl wf by (simp add: hdr_example_def)
qed

text \<open>C5 as stated fails for a length of 16 bits or more: with 3 unused slots,
  \<^verbatim>\<open>Shrink(0, 2, 65537)\<close> shrinks by 1, not by \<open>min(65537, 3)\<close>.\<close>

theorem Shrink_min_len_counterexample:
  "Shrink slab_example 0 2 65537 =
     Some (Inr (1, StoreHeader slab_example 0 2
                     \<lparr>current = 12, end_copy = 14, begin_off = 10, end_off = 14\<rparr>)) \<and>
   min (65537 :: nat) (unat (end_off hdr_example) - unat (current hdr_example)) = 3"
proof -
  have a: "unat (end_off hdr_example) - unat (current hdr_example) = 3"
    by (simp add: hdr_example_def)
  have b: "Shrink_n hdr_example 65537 = 1"
    by (simp add: Shrink_n_def hdr_example_def)
  have c: "begin_off hdr_example \<noteq> 0xFFFF" "begin_off hdr_example \<noteq> 0"
    "current hdr_example \<noteq> end_off hdr_example"
    by (simp_all add: hdr_example_def)
  have "Shrink slab_example 0 2 65537 =
     Some (Inr (1, StoreHeader slab_example 0 2
       (hdr_example\<lparr>end_off := end_off hdr_example - 1, end_copy := end_copy hdr_example - 1\<rparr>)))"
    using Shrink_commit [OF LoadHeader_example c rseq_cpu_example, of 65537] b by simp
  then show ?thesis using a by (simp add: hdr_example_def)
qed


lemma StoreHeader_fields [simp]:
  "rseq_cpu (StoreHeader s cpu sc hdr) = rseq_cpu s"
  "world (StoreHeader s cpu sc hdr) = world s"
  "num_cpus (StoreHeader s cpu sc hdr) = num_cpus s"
  "slabs_and_shift (StoreHeader s cpu sc hdr) = slabs_and_shift s"
  by (simp_all add: StoreHeader_def)

lemma Capacity_cong:
  "LoadHeader s cpu sc = LoadHeader t cpu sc \<Longrightarrow> Capacity s cpu sc = Capacity t cpu sc"
  by (simp add: Capacity_def)

lemma Length_cong:
  "LoadHeader s cpu sc = LoadHeader t cpu sc \<Longrightarrow> Length s cpu sc = Length t cpu sc"
  by (simp add: Length_def)

lemma ucast_64_16_small:
  "unat (n :: u64) < 2 ^ 16 \<Longrightarrow> unat (ucast n :: u16) = unat n"
  by (simp add: unat_ucast_64_16)

lemma ucast_16_64_id:
  "unat (n :: u64) < 2 ^ 16 \<Longrightarrow> (ucast (ucast n :: u16) :: u64) = n"
  by (rule word_unat_eq_iff [THEN iffD2]) (simp add: unat_ucast_64_16)

lemma Grow_Shrink_roundtrip:
  assumes h: "LoadHeader s cpu sc = h"
    and unlocked: "begin_off h \<noteq> 0xFFFF"
    and empty: "current h = begin_off h"
    and be: "begin_off h \<le> end_off h"
    and cap: "unat (end_off h) - unat (begin_off h) \<le> unat max_cap"
    and fit: "unat (begin_off h) + unat max_cap < 2 ^ 16"
    and cpu: "rseq_cpu s = cpu"
    and room: "unat n \<le> unat max_cap - (unat (end_off h) - unat (begin_off h))"
  shows "\<exists>g s1 s2.
     Grow_loop s cpu sc n max_cap = Some (Inr (g, s1)) \<and>
     Shrink s1 cpu sc n = Some (Inr (g, s2)) \<and>
     LoadHeader s2 cpu sc = h \<and> (begin_off h \<noteq> 0 \<longrightarrow> g = n)"
proof (cases "begin_off h = 0")
  case True
  have "Grow_loop s cpu sc n max_cap = Some (Inr (0, s))"
    using Grow_loop_refuse [OF h unlocked] True by simp
  moreover have "Shrink s cpu sc n = Some (Inr (0, s))"
    using Shrink_refuse [OF h unlocked] True by simp
  ultimately show ?thesis using h True by blast
next
  case nz: False
  let ?cap = "ucast (end_off h) - ucast (begin_off h) :: u64"
  have ucap: "unat ?cap = unat (end_off h) - unat (begin_off h)"
    using be by (rule unat_ucast_sub_16_64)
  have ube: "unat (begin_off h) \<le> unat (end_off h)"
    using be by (simp add: word_le_nat_alt)
  have n_small: "unat n < 2 ^ 16" using room fit by linarith
  show ?thesis
  proof (cases "?cap = max_cap")
    case True
    then have "unat max_cap = unat (end_off h) - unat (begin_off h)" using ucap by simp
    then have n0: "n = 0" using room by (simp add: unat_eq_zero)
    have g: "Grow_loop s cpu sc n max_cap = Some (Inr (0, s))"
      using Grow_loop_refuse [OF h unlocked] True by simp
    show ?thesis
    proof (cases "current h = end_off h")
      case True
      have "Shrink s cpu sc n = Some (Inr (0, s))"
        using Shrink_refuse [OF h unlocked] True by simp
      then show ?thesis using g h n0 by blast
    next
      case False
      have z: "Shrink_n h n = 0" using n0 by (simp add: Shrink_n_def)
      have "Shrink s cpu sc n = Some (Inr (0, StoreHeader s cpu sc h))"
        using Shrink_commit [OF h unlocked nz False cpu, of n] z by simp
      moreover have "LoadHeader (StoreHeader s cpu sc h) cpu sc = h"
        by (simp add: LoadHeader_StoreHeader)
      ultimately show ?thesis using g n0 by blast
    qed
  next
    case False
    let ?g = "Grow_n h n max_cap"
    let ?h1 = "h\<lparr>end_off := end_off h + ?g, end_copy := end_copy h + ?g\<rparr>"
    let ?s1 = "StoreHeader s cpu sc ?h1"
    have gw: "unat ?g = min (unat n mod 2 ^ 16) (unat max_cap - (unat (end_off h) - unat (begin_off h)))"
      "unat (end_off h + ?g) = unat (end_off h) + unat ?g"
      using Grow_n_wellformed [OF be cap fit, of n] by auto
    have ug: "unat ?g = unat n" using gw(1) n_small room by simp
    have g_eq: "(ucast ?g :: u64) = n"
      by (rule word_unat_eq_iff [THEN iffD2]) (simp add: ug)
    have g16: "?g = ucast n"
      using ucast_64_16_small [OF n_small] ug by (simp add: word_unat_eq_iff)
    have grow: "Grow_loop s cpu sc n max_cap = Some (Inr (n, ?s1))"
      using Grow_loop_commit [OF h unlocked nz False cpu, of n] g_eq by simp
    have h1: "LoadHeader ?s1 cpu sc = ?h1" by (simp add: LoadHeader_StoreHeader)
    have unl1: "begin_off ?h1 \<noteq> 0xFFFF" "begin_off ?h1 \<noteq> 0" using unlocked nz by simp_all
    have cpu1: "rseq_cpu ?s1 = cpu" using cpu by simp
    show ?thesis
    proof (cases "current ?h1 = end_off ?h1")
      case True
      then have "unat (begin_off h) = unat (end_off h) + unat ?g"
        using empty gw(2) by simp
      then have "unat n = 0" using ug ube by linarith
      then have n0: "n = 0" by (simp add: unat_eq_zero)
      then have g0: "?g = 0" using g16 by simp
      have "Shrink ?s1 cpu sc n = Some (Inr (0, ?s1))"
        using Shrink_refuse [OF h1 unl1(1)] True by simp
      moreover have "LoadHeader ?s1 cpu sc = h" using h1 g0 by simp
      ultimately show ?thesis using grow n0 by blast
    next
      case ne: False
      have sn: "unat (Shrink_n ?h1 n) = unat ?g"
        unfolding Shrink_n_def unat_min_word
        using empty ube gw(2) ug ucast_64_16_small [OF n_small]
        by (simp add: unat_sub word_le_nat_alt)
      then have sn_eq: "Shrink_n ?h1 n = ?g"
        by (simp add: word_unat_eq_iff)
      have "Shrink ?s1 cpu sc n =
        Some (Inr (ucast ?g, StoreHeader ?s1 cpu sc
          (?h1\<lparr>end_off := end_off ?h1 - ?g, end_copy := end_copy ?h1 - ?g\<rparr>)))"
        using Shrink_commit [OF h1 unl1 ne cpu1, of n] sn_eq by simp
      then have shrink: "Shrink ?s1 cpu sc n = Some (Inr (n, StoreHeader ?s1 cpu sc h))"
        using g_eq by simp
      have "LoadHeader (StoreHeader ?s1 cpu sc h) cpu sc = h"
        by (simp add: LoadHeader_StoreHeader)
      then show ?thesis using grow shrink by blast
    qed
  qed
qed

lemma LoadHeader_empty_example: "LoadHeader slab_empty_example 0 2 = hdr_empty_example"
  by (simp add: slab_empty_example_def LoadHeader_StoreHeader)

lemma rseq_cpu_empty_example: "rseq_cpu slab_empty_example = 0"
  by (simp add: slab_empty_example_def rseq_cpu_example)

lemma Capacity_StoreHeader:
  "begin_off hdr \<noteq> 0xFFFF \<Longrightarrow>
   Capacity (StoreHeader s cpu sc hdr) cpu sc = Inr (ucast (end_off hdr) - ucast (begin_off hdr))"
  by (simp add: Capacity_def LoadHeader_StoreHeader IsLocked_unlocked)

text \<open>
  C8 (amended): on an empty, unlocked sub-slab of a layout with \<^verbatim>\<open>begin <= end\<close>,
  \<^verbatim>\<open>end - begin <= max_capacity(shift)\<close> and \<^verbatim>\<open>begin + max_capacity(shift) < 2^16\<close>, and
  for \<open>n\<close> within the room \<^verbatim>\<open>max_capacity(shift) - (end - begin)\<close>, Grow by \<open>n\<close> followed
  by Shrink by \<open>n\<close>, both on \<open>cpu\<close>, return the same amount (\<open>n\<close> unless
  \<^verbatim>\<open>begin == 0\<close>) and leave Capacity as it was before the Grow.
\<close>

theorem Grow_Shrink_Capacity:
  assumes "LoadHeader s cpu sc = h"
    and "begin_off h \<noteq> 0xFFFF"
    and "current h = begin_off h"
    and "begin_off h \<le> end_off h"
    and "max_capacity (GetShift s) = max_cap"
    and "unat (end_off h) - unat (begin_off h) \<le> unat max_cap"
    and "unat (begin_off h) + unat max_cap < 2 ^ 16"
    and "rseq_cpu s = cpu"
    and "unat n \<le> unat max_cap - (unat (end_off h) - unat (begin_off h))"
  shows "\<exists>g s1 s2.
     Grow s cpu sc n max_capacity = Some (Inr (g, s1)) \<and>
     Shrink s1 cpu sc n = Some (Inr (g, s2)) \<and>
     Capacity s2 cpu sc = Capacity s cpu sc \<and>
     (begin_off h \<noteq> 0 \<longrightarrow> g = n)"
proof -
  from Grow_Shrink_roundtrip [OF assms(1-4) assms(6-9)]
  obtain g s1 s2 where
    a: "Grow_loop s cpu sc n max_cap = Some (Inr (g, s1))" and
    b: "Shrink s1 cpu sc n = Some (Inr (g, s2))" and
    c: "LoadHeader s2 cpu sc = h" and
    d: "begin_off h \<noteq> 0 \<longrightarrow> g = n"
    by blast
  have "Capacity s2 cpu sc = Capacity s cpu sc"
    using c assms(1) by (simp add: Capacity_cong)
  then show ?thesis
    using a b d unfolding Grow_def assms(5) by blast
qed

theorem Grow_Shrink_Capacity_witness:
  "\<exists>s1 s2.
     Grow slab_empty_example 0 2 2 (\<lambda>shift. 5) = Some (Inr (2, s1)) \<and>
     Shrink s1 0 2 2 = Some (Inr (2, s2)) \<and>
     Capacity s2 0 2 = Inr 3"
proof -
  have c0: "Capacity slab_empty_example 0 2 = Inr 3"
    by (simp add: slab_empty_example_def Capacity_StoreHeader hdr_empty_example_def)
  have a: "begin_off hdr_empty_example \<noteq> 0xFFFF"
    "current hdr_empty_example = begin_off hdr_empty_example"
    "begin_off hdr_empty_example \<le> end_off hdr_empty_example"
    by (simp_all add: hdr_empty_example_def)
  have b: "unat (end_off hdr_empty_example) - unat (begin_off hdr_empty_example) \<le> unat (5 :: u64)"
    "unat (begin_off hdr_empty_example) + unat (5 :: u64) < 2 ^ 16"
    "unat (2 :: u64) \<le> unat (5 :: u64) - (unat (end_off hdr_empty_example) - unat (begin_off hdr_empty_example))"
    by (simp_all add: hdr_empty_example_def)
  have nz: "begin_off hdr_empty_example \<noteq> 0" by (simp add: hdr_empty_example_def)
  from Grow_Shrink_Capacity [where max_capacity = "\<lambda>shift. 5", OF LoadHeader_empty_example a refl
      b(1,2) rseq_cpu_empty_example b(3)]
  show ?thesis using nz c0 by auto
qed

text \<open>C8 as stated fails when Grow is cut short by the maximum: from capacity 3 with
  maximum 5, \<^verbatim>\<open>Grow(4)\<close> adds 2 and \<^verbatim>\<open>Shrink(4)\<close> then removes 4, leaving capacity 1.\<close>

theorem Grow_Shrink_Capacity_counterexample:
  "Capacity slab_empty_example 0 2 = Inr 3 \<and>
   Grow slab_empty_example 0 2 4 (\<lambda>shift. 5) =
     Some (Inr (2, StoreHeader slab_empty_example 0 2
                     \<lparr>current = 10, end_copy = 15, begin_off = 10, end_off = 15\<rparr>)) \<and>
   Shrink (StoreHeader slab_empty_example 0 2
             \<lparr>current = 10, end_copy = 15, begin_off = 10, end_off = 15\<rparr>) 0 2 4 =
     Some (Inr (4, StoreHeader (StoreHeader slab_empty_example 0 2
                      \<lparr>current = 10, end_copy = 15, begin_off = 10, end_off = 15\<rparr>) 0 2
                     \<lparr>current = 10, end_copy = 11, begin_off = 10, end_off = 11\<rparr>)) \<and>
   Capacity (StoreHeader (StoreHeader slab_empty_example 0 2
                      \<lparr>current = 10, end_copy = 15, begin_off = 10, end_off = 15\<rparr>) 0 2
                     \<lparr>current = 10, end_copy = 11, begin_off = 10, end_off = 11\<rparr>) 0 2 = Inr 1"
proof -
  let ?h1 = "\<lparr>current = 10, end_copy = 15, begin_off = 10, end_off = 15\<rparr> :: Header"
  let ?s1 = "StoreHeader slab_empty_example 0 2 ?h1"
  have c0: "Capacity slab_empty_example 0 2 = Inr 3"
    by (simp add: slab_empty_example_def Capacity_StoreHeader hdr_empty_example_def)
  have c: "begin_off hdr_empty_example \<noteq> 0xFFFF" "begin_off hdr_empty_example \<noteq> 0"
    "(ucast (end_off hdr_empty_example) - ucast (begin_off hdr_empty_example) :: u64) \<noteq> 5"
    by (simp_all add: hdr_empty_example_def)
  have gn: "Grow_n hdr_empty_example 4 5 = 2"
    by (simp add: Grow_n_def hdr_empty_example_def)
  have g: "Grow slab_empty_example 0 2 4 (\<lambda>shift. 5) = Some (Inr (2, ?s1))"
    unfolding Grow_def
    using Grow_loop_commit [OF LoadHeader_empty_example c rseq_cpu_empty_example, of 4] gn
    by (simp add: hdr_empty_example_def)
  have h1: "LoadHeader ?s1 0 2 = ?h1" by (simp add: LoadHeader_StoreHeader)
  have c1: "begin_off ?h1 \<noteq> 0xFFFF" "begin_off ?h1 \<noteq> 0" "current ?h1 \<noteq> end_off ?h1"
    by simp_all
  have r1: "rseq_cpu ?s1 = 0" by (simp add: rseq_cpu_empty_example)
  have sn: "Shrink_n ?h1 4 = 4" by (simp add: Shrink_n_def)
  have s: "Shrink ?s1 0 2 4 = Some (Inr (4, StoreHeader ?s1 0 2
               \<lparr>current = 10, end_copy = 11, begin_off = 10, end_off = 11\<rparr>))"
    using Shrink_commit [OF h1 c1 r1, of 4] sn by simp
  have c2: "Capacity (StoreHeader ?s1 0 2
               \<lparr>current = 10, end_copy = 11, begin_off = 10, end_off = 11\<rparr>) 0 2 = Inr 1"
    by (simp add: Capacity_StoreHeader)
  show ?thesis using c0 g s c2 by simp
qed

subsection \<open>Drain\<close>

lemma for_each_append:
  "for_each (xs @ ys) body a =
     (case for_each xs body a of Inl e \<Rightarrow> Inl e | Inr a' \<Rightarrow> for_each ys body a')"
  by (induction xs arbitrary: a) (auto split: sum.splits)

lemma lock_all_Suc: "lock_all (Suc n) s cpu = LockHeader (lock_all n s cpu) cpu n"
  by (simp add: lock_all_def)

lemma mem_LockHeader:
  "mem (LockHeader s cpu sc) cpu' i =
     (if cpu' = cpu \<and> i = sc then Lock (mem s cpu sc) else mem s cpu' i)"
  by (simp add: LockHeader_def mem_store_word)

lemma LockHeader_fields [simp]:
  "world (LockHeader s cpu sc) = world s"
  "num_cpus (LockHeader s cpu sc) = num_cpus s"
  "slabs_and_shift (LockHeader s cpu sc) = slabs_and_shift s"
  by (simp_all add: LockHeader_def)

lemma mem_lock_all:
  "mem (lock_all n s cpu) cpu' i =
     (if cpu' = cpu \<and> i < n then Lock (mem s cpu i) else mem s cpu' i)"
  by (induction n) (auto simp: lock_all_Suc mem_LockHeader lock_all_def less_Suc_eq)

lemma lock_all_fields [simp]:
  "world (lock_all n s cpu) = world s"
  "num_cpus (lock_all n s cpu) = num_cpus s"
  "slabs_and_shift (lock_all n s cpu) = slabs_and_shift s"
  "rseq_cpu (lock_all n s cpu) = rseq_cpu s"
  by (induction n) (simp_all add: lock_all_Suc, simp_all add: lock_all_def)

lemma LoadHeader_lock_all:
  "LoadHeader (lock_all n s cpu) cpu' sc =
     (if cpu' = cpu \<and> sc < n then (LoadHeader s cpu sc)\<lparr>begin_off := 0xFFFF, end_off := 0\<rparr>
      else LoadHeader s cpu' sc)"
  by (simp add: LoadHeader_def mem_lock_all bit_cast_Header_Lock)

lemma all_locked_True:
  "\<forall>sc \<in> set xs. begin_off (LoadHeader s cpu sc) = 0xFFFF \<and> end_off (LoadHeader s cpu sc) = 0 \<Longrightarrow>
   all_locked s cpu xs = Inr True"
  by (induction xs) (simp_all add: IsLocked_locked)

lemma StopConcurrentMutations_eq:
  "StopConcurrentMutations n s cpu = Some (Inr (lock_all n s cpu))"
proof -
  have "all_locked (lock_all n s cpu) cpu [0..<n] = Inr True"
    by (rule all_locked_True) (simp add: LoadHeader_lock_all)
  then show ?thesis
    by (subst StopConcurrentMutations.simps) (simp add: lock_all_def)
qed

lemma Drain_phase1:
  assumes "\<forall>sc < n. begin_off (LoadHeader s cpu sc) \<noteq> 0xFFFF"
  shows "for_each [0..<n]
           (\<lambda>sc begins.
              let hdr = LoadHeader s cpu sc in
              case IsLocked hdr of
                Inl e \<Rightarrow> Inl e
              | Inr locked \<Rightarrow>
                  if locked then Inl CheckFailed else Inr (begins(sc := begin_off hdr)))
           (\<lambda>sc. 0) = Inr (collect_begins n s cpu)"
  using assms
proof (induction n)
  case 0
  then show ?case by (simp add: collect_begins_def)
next
  case (Suc n)
  have "collect_begins (Suc n) s cpu = (collect_begins n s cpu)(n := begin_off (LoadHeader s cpu n))"
    by (rule ext) (simp add: collect_begins_def)
  with Suc show ?case
    by (auto simp add: for_each_append IsLocked_unlocked fun_eq_iff)
qed

lemma world_update_same_mem:
  "LoadHeader (t\<lparr>world := w\<rparr>) cpu sc = LoadHeader t cpu sc"
  "batch_at (t\<lparr>world := w\<rparr>) cpu i n = batch_at t cpu i n"
  by (simp_all add: LoadHeader_def batch_at_def)

lemma DrainCpu_fold:
  "fold (\<lambda>sc t.
        let header = LoadHeader t cpu sc;
            size = (ucast (current header) - ucast (begins sc) :: u64);
            cap = (ucast (end_copy header) - ucast (begins sc) :: u64)
        in t\<lparr>world := drain_handler cpu sc (batch_at t cpu (unat (begins sc)) (unat size))
                          size cap (world t)\<rparr>) xs s =
   s\<lparr>world := fold (drain_call s cpu begins drain_handler) xs (world s)\<rparr>"
proof (induction xs arbitrary: s)
  case Nil
  then show ?case by simp
next
  case (Cons x xs)
  have eq: "drain_call (s\<lparr>world := w\<rparr>) cpu begins drain_handler =
            drain_call s cpu begins drain_handler" for w
    by (rule ext) (simp add: drain_call_def world_update_same_mem)
  show ?case
    by (simp add: Cons.IH [unfolded Let_def] Let_def eq) (simp add: drain_call_def)
qed

lemma DrainCpu_eq:
  "DrainCpu n s cpu begins drain_handler =
     s\<lparr>world := fold (drain_call s cpu begins drain_handler) [0..<n] (world s)\<rparr>"
  unfolding DrainCpu_def by (rule DrainCpu_fold)

lemma fold_StoreHeader_world:
  "world (fold (\<lambda>sc t. StoreHeader t cpu sc (H sc t)) xs s) = world s"
  by (induction xs arbitrary: s) simp_all

lemma LoadHeader_fold_StoreHeader:
  "LoadHeader (fold (\<lambda>sc t. StoreHeader t cpu sc (H sc)) [0..<n] s) cpu' sc' =
     (if cpu' = cpu \<and> sc' < n then H sc' else LoadHeader s cpu' sc')"
  by (induction n) (auto simp: LoadHeader_StoreHeader less_Suc_eq)

lemma Drain_eq:
  assumes "0 \<le> cpu" and "cpu < num_cpus s"
    and "\<forall>sc < n. begin_off (LoadHeader s cpu sc) \<noteq> 0xFFFF"
  shows "Drain n s cpu drain_handler =
    Some (Inr
      (fold (\<lambda>sc t. StoreHeader t cpu sc
                \<lparr>current = collect_begins n s cpu sc, end_copy = collect_begins n s cpu sc,
                 begin_off = collect_begins n s cpu sc, end_off = collect_begins n s cpu sc\<rparr>)
         [0..<n]
         (fold (\<lambda>sc t. StoreHeader t cpu sc
                   ((LoadHeader t cpu sc)\<lparr>current := collect_begins n s cpu sc\<rparr>))
            [0..<n]
            (DrainCpu n (lock_all n s cpu) cpu (collect_begins n s cpu) drain_handler))))"
  unfolding Drain_def
  using assms by (simp add: Drain_phase1 [unfolded Let_def] StopConcurrentMutations_eq Let_def)

lemma drain_call_locked:
  assumes "sc < n"
  shows "drain_call (lock_all n s cpu) cpu (collect_begins n s cpu) drain_handler sc =
     drain_handler cpu sc
       (batch_at (lock_all n s cpu) cpu (unat (begin_off (LoadHeader s cpu sc)))
          (unat (ucast (current (LoadHeader s cpu sc)) - ucast (begin_off (LoadHeader s cpu sc)) :: u64)))
       (ucast (current (LoadHeader s cpu sc)) - ucast (begin_off (LoadHeader s cpu sc)))
       (ucast (end_copy (LoadHeader s cpu sc)) - ucast (begin_off (LoadHeader s cpu sc)))"
  using assms by (simp add: drain_call_def LoadHeader_lock_all collect_begins_def)


lemma upt_4: "[0..<4] = [0, 1, 2, 3]"
  by (simp add: upt_rec)

lemma LoadHeader_drain_example:
  "LoadHeader drain_example 0 0 = \<lparr>current = 5, end_copy = 7, begin_off = 5, end_off = 7\<rparr>"
  "LoadHeader drain_example 0 (Suc 0) = \<lparr>current = 9, end_copy = 9, begin_off = 8, end_off = 9\<rparr>"
  "LoadHeader drain_example 0 2 = hdr_example"
  "LoadHeader drain_example 0 3 = \<lparr>current = 17, end_copy = 17, begin_off = 17, end_off = 17\<rparr>"
  by (simp_all add: LoadHeader_def drain_example_def)

lemma batch_drain_example:
  "batch_at (lock_all 4 drain_example 0) 0 5 0 = []"
  "batch_at (lock_all 4 drain_example 0) 0 8 (Suc 0) = [0xA00]"
  "batch_at (lock_all 4 drain_example 0) 0 10 2 = [0x1000, 0x2000]"
  "batch_at (lock_all 4 drain_example 0) 0 17 0 = []"
  by (simp_all add: batch_at_def mem_lock_all upt_rec) (simp_all add: drain_example_def)


text \<open>
  C6: for a CPU in range whose headers are all unlocked, Drain returns, and then Length
  and Capacity are 0 for every size class of that CPU, and the handlers' world is the
  result of calling the drain handler once per size class, in increasing class order,
  with \<^verbatim>\<open>size = current - begin[sc]\<close> and \<^verbatim>\<open>cap = end_copy - begin[sc]\<close> of the headers
  before the call and the batch of \<^verbatim>\<open>size\<close> words at \<^verbatim>\<open>begin[sc]\<close>.
\<close>

theorem Drain_empties_cpu:
  assumes "0 \<le> cpu" and "cpu < num_cpus s"
    and "\<forall>sc < NumClasses. begin_off (LoadHeader s cpu sc) \<noteq> 0xFFFF"
  shows "\<exists>s'. Drain NumClasses s cpu drain_handler = Some (Inr s') \<and>
     (\<forall>sc < NumClasses. Length s' cpu sc = Inr 0 \<and> Capacity s' cpu sc = Inr 0) \<and>
     world s' =
       fold (\<lambda>sc. drain_handler cpu sc
               (batch_at (lock_all NumClasses s cpu) cpu (unat (begin_off (LoadHeader s cpu sc)))
                  (unat (ucast (current (LoadHeader s cpu sc)) -
                         ucast (begin_off (LoadHeader s cpu sc)) :: u64)))
               (ucast (current (LoadHeader s cpu sc)) - ucast (begin_off (LoadHeader s cpu sc)))
               (ucast (end_copy (LoadHeader s cpu sc)) - ucast (begin_off (LoadHeader s cpu sc))))
         [0..<NumClasses] (world s)"
proof -
  let ?b = "collect_begins NumClasses s cpu"
  let ?s3 = "DrainCpu NumClasses (lock_all NumClasses s cpu) cpu ?b drain_handler"
  let ?s4 = "fold (\<lambda>sc t. StoreHeader t cpu sc ((LoadHeader t cpu sc)\<lparr>current := ?b sc\<rparr>))
               [0..<NumClasses] ?s3"
  let ?s5 = "fold (\<lambda>sc t. StoreHeader t cpu sc
               \<lparr>current = ?b sc, end_copy = ?b sc, begin_off = ?b sc, end_off = ?b sc\<rparr>)
               [0..<NumClasses] ?s4"
  have d: "Drain NumClasses s cpu drain_handler = Some (Inr ?s5)"
    using assms by (rule Drain_eq)
  have hdr: "LoadHeader ?s5 cpu sc =
      \<lparr>current = ?b sc, end_copy = ?b sc, begin_off = ?b sc, end_off = ?b sc\<rparr>"
    if "sc < NumClasses" for sc
    using that by (simp add: LoadHeader_fold_StoreHeader)
  have len: "Length ?s5 cpu sc = Inr 0 \<and> Capacity ?s5 cpu sc = Inr 0" if "sc < NumClasses" for sc
  proof -
    have "?b sc \<noteq> 0xFFFF" using that assms(3) by (simp add: collect_begins_def)
    then show ?thesis
      using hdr [OF that] by (simp add: Length_def Capacity_def IsLocked_unlocked)
  qed
  have w5: "world ?s5 = world ?s3"
    by (simp add: fold_StoreHeader_world)
  have w3: "world ?s3 =
      fold (drain_call (lock_all NumClasses s cpu) cpu ?b drain_handler) [0..<NumClasses] (world s)"
    by (simp add: DrainCpu_eq)
  have w: "fold (drain_call (lock_all NumClasses s cpu) cpu ?b drain_handler) [0..<NumClasses] (world s) =
       fold (\<lambda>sc. drain_handler cpu sc
               (batch_at (lock_all NumClasses s cpu) cpu (unat (begin_off (LoadHeader s cpu sc)))
                  (unat (ucast (current (LoadHeader s cpu sc)) -
                         ucast (begin_off (LoadHeader s cpu sc)) :: u64)))
               (ucast (current (LoadHeader s cpu sc)) - ucast (begin_off (LoadHeader s cpu sc)))
               (ucast (end_copy (LoadHeader s cpu sc)) - ucast (begin_off (LoadHeader s cpu sc))))
         [0..<NumClasses] (world s)"
    by (rule fold_cong) (simp_all add: drain_call_locked)
  show ?thesis
    using d len w5 w3 w by (intro exI [of _ ?s5]) simp
qed

theorem Drain_empties_cpu_witness:
  "\<exists>s'. Drain 4 drain_example 0 log_drain = Some (Inr s') \<and>
     Length s' 0 2 = Inr 0 \<and> Capacity s' 0 2 = Inr 0 \<and>
     world s' = [(0, 0, [], 0, 2), (0, 1, [0xA00], 1, 1),
                 (0, 2, [0x1000, 0x2000], 2, 5), (0, 3, [], 0, 0)]"
proof -
  have a: "(0 :: int) \<le> 0" "0 < num_cpus drain_example"
    by (simp_all add: drain_example_def)
  have b: "\<forall>sc < 4. begin_off (LoadHeader drain_example 0 sc) \<noteq> 0xFFFF"
  proof (intro allI impI)
    fix sc :: nat
    assume "sc < 4"
    then have "sc = 0 \<or> sc = Suc 0 \<or> sc = 2 \<or> sc = 3" by arith
    then show "begin_off (LoadHeader drain_example 0 sc) \<noteq> 0xFFFF"
      by (auto simp: LoadHeader_drain_example hdr_example_def)
  qed
  from Drain_empties_cpu [OF a b, of log_drain]
  obtain s' where
    d: "Drain 4 drain_example 0 log_drain = Some (Inr s')" and
    l: "\<forall>sc < 4. Length s' 0 sc = Inr 0 \<and> Capacity s' 0 sc = Inr 0" and
    w: "world s' =
       fold (\<lambda>sc. log_drain 0 sc
               (batch_at (lock_all 4 drain_example 0) 0 (unat (begin_off (LoadHeader drain_example 0 sc)))
                  (unat (ucast (current (LoadHeader drain_example 0 sc)) -
                         ucast (begin_off (LoadHeader drain_example 0 sc)) :: u64)))
               (ucast (current (LoadHeader drain_example 0 sc)) - ucast (begin_off (LoadHeader drain_example 0 sc)))
               (ucast (end_copy (LoadHeader drain_example 0 sc)) - ucast (begin_off (LoadHeader drain_example 0 sc))))
         [0..<4] (world drain_example)"
    by blast
  have w0: "world drain_example = []" by (simp add: drain_example_def)
  have w': "world s' = [(0, 0, [], 0, 2), (0, 1, [0xA00], 1, 1),
                 (0, 2, [0x1000, 0x2000], 2, 5), (0, 3, [], 0, 0)]"
    unfolding w upt_4 w0
    by (simp add: LoadHeader_drain_example hdr_example_def batch_drain_example log_drain_def)
  have l2: "Length s' 0 2 = Inr 0 \<and> Capacity s' 0 2 = Inr 0"
    using l by simp
  show ?thesis using d l2 w' by blast
qed

subsection \<open>ShrinkOtherCache\<close>

lemma ShrinkOtherCache_lock_eq:
  "ShrinkOtherCache_lock s cpu sc =
     Some (Inr ((LoadHeader s cpu sc)\<lparr>begin_off := 0xFFFF, end_off := 0\<rparr>, LockHeader s cpu sc))"
  by (subst ShrinkOtherCache_lock.simps) (simp add: LoadHeader_LockHeader IsLocked_locked)

lemma ShrinkOtherCache_eq:
  assumes "0 \<le> cpu" and "cpu < num_cpus s" and "LoadHeader s cpu sc = h"
    and "begin_off h \<noteq> 0xFFFF"
  shows "ShrinkOtherCache s cpu sc len shrink_handler =
     Some (Inr (ucast (shrink_amount h len),
       StoreHeader
         (if ucast (end_copy h - current h) < len
          then StoreHeader
                 ((LockHeader s cpu sc)\<lparr>world :=
                    shrink_handler sc
                      (batch_at (LockHeader s cpu sc) cpu
                         (unat (current h) - unat (shrink_pop h len)) (unat (shrink_pop h len)))
                      (ucast (shrink_pop h len)) (world s)\<rparr>)
                 cpu sc (h\<lparr>begin_off := 0xFFFF, end_off := 0,
                          current := current h - shrink_pop h len\<rparr>)
          else LockHeader s cpu sc)
         cpu sc
         \<lparr>current = current h - shrink_pop h len,
          end_copy = end_copy h - shrink_amount h len,
          begin_off = begin_off h,
          end_off = end_copy h - shrink_amount h len\<rparr>))"
  using assms
  by (cases h)
     (simp add: ShrinkOtherCache_def ShrinkOtherCache_lock_eq IsLocked_unlocked
      ShrinkOtherCache_shrink_def Let_def shrink_pop_def shrink_amount_def)

lemma shrink_pop_wellformed:
  assumes bc: "begin_off h \<le> current h" and ce: "current h \<le> end_copy h"
  shows "unat (end_copy h - current h) = unat (end_copy h) - unat (current h)"
    and "(ucast (end_copy h - current h) < len) = (unat (end_copy h) - unat (current h) < unat len)"
    and "unat (shrink_pop h len) =
           (if unat (end_copy h) - unat (current h) < unat len
            then min ((unat len - (unat (end_copy h) - unat (current h))) mod 2 ^ 16)
                     (unat (current h) - unat (begin_off h))
            else 0)"
    and "unat (current h - shrink_pop h len) = unat (current h) - unat (shrink_pop h len)"
    and "begin_off h \<le> current h - shrink_pop h len"
    and "current h - shrink_pop h len \<le> end_copy h"
proof -
  show u: "unat (end_copy h - current h) = unat (end_copy h) - unat (current h)"
    using ce by (rule unat_sub)
  show lt: "(ucast (end_copy h - current h) < len) =
        (unat (end_copy h) - unat (current h) < unat len)"
    by (simp add: word_less_nat_alt u)
  have cb: "unat (current h - begin_off h) = unat (current h) - unat (begin_off h)"
    using bc by (rule unat_sub)
  show p: "unat (shrink_pop h len) =
           (if unat (end_copy h) - unat (current h) < unat len
            then min ((unat len - (unat (end_copy h) - unat (current h))) mod 2 ^ 16)
                     (unat (current h) - unat (begin_off h))
            else 0)"
  proof (cases "ucast (end_copy h - current h) < len")
    case True
    then have "(ucast (end_copy h - current h) :: u64) \<le> len" by simp
    then have "unat (len - ucast (end_copy h - current h)) =
        unat len - (unat (end_copy h) - unat (current h))"
      by (simp add: unat_sub u)
    then show ?thesis
      using True lt by (simp add: shrink_pop_def unat_min_word unat_ucast_64_16 cb)
  next
    case False
    then show ?thesis using lt by (simp add: shrink_pop_def)
  qed
  have ple: "unat (shrink_pop h len) \<le> unat (current h) - unat (begin_off h)"
    using p by (simp split: if_splits)
  have ubc: "unat (begin_off h) \<le> unat (current h)" "unat (current h) \<le> unat (end_copy h)"
    using bc ce by (simp_all add: word_le_nat_alt)
  have "shrink_pop h len \<le> current h"
    using ple ubc by (simp add: word_le_nat_alt)
  then show d: "unat (current h - shrink_pop h len) = unat (current h) - unat (shrink_pop h len)"
    by (rule unat_sub)
  show "begin_off h \<le> current h - shrink_pop h len"
    using d ple ubc by (simp add: word_le_nat_alt)
  show "current h - shrink_pop h len \<le> end_copy h"
    using d ubc by (simp add: word_le_nat_alt)
qed

lemma shrink_amount_wellformed:
  assumes bc: "begin_off h \<le> current h" and ce: "current h \<le> end_copy h"
  shows "unat (shrink_amount h len) =
           min (unat len mod 2 ^ 16)
               (unat (end_copy h) - (unat (current h) - unat (shrink_pop h len)))"
    and "unat (end_copy h - shrink_amount h len) = unat (end_copy h) - unat (shrink_amount h len)"
    and "current h - shrink_pop h len \<le> end_copy h - shrink_amount h len"
proof -
  note w = shrink_pop_wellformed [OF bc ce]
  have e: "unat (end_copy h - (current h - shrink_pop h len)) =
      unat (end_copy h) - (unat (current h) - unat (shrink_pop h len))"
    using w(6) w(4) by (simp add: unat_sub)
  show a: "unat (shrink_amount h len) =
           min (unat len mod 2 ^ 16)
               (unat (end_copy h) - (unat (current h) - unat (shrink_pop h len)))"
    by (simp add: shrink_amount_def unat_min_word unat_ucast_64_16 e)
  have le: "unat (shrink_amount h len) \<le> unat (end_copy h) - (unat (current h) - unat (shrink_pop h len))"
    using a by simp
  then have "shrink_amount h len \<le> end_copy h"
    by (simp add: word_le_nat_alt)
  then show s: "unat (end_copy h - shrink_amount h len) =
      unat (end_copy h) - unat (shrink_amount h len)"
    by (rule unat_sub)
  have "unat (current h - shrink_pop h len) \<le> unat (end_copy h)"
    using w(6) by (simp add: word_le_nat_alt)
  then show "current h - shrink_pop h len \<le> end_copy h - shrink_amount h len"
    using s le w(4) by (simp add: word_le_nat_alt)
qed

lemma batch_at_LockHeader:
  "sc < i \<Longrightarrow> batch_at (LockHeader s cpu sc) cpu i n = batch_at s cpu i n"
  by (simp add: batch_at_def mem_LockHeader)


lemma LoadHeader_shrink_example: "LoadHeader shrink_example 0 2 = hdr_example"
  using LoadHeader_drain_example(3) by (simp add: LoadHeader_def shrink_example_def)

lemma shrink_example_fields:
  "num_cpus shrink_example = 2" "world shrink_example = []"
  by (simp_all add: shrink_example_def)

lemma batch_shrink_example:
  "batch_at shrink_example 0 11 (Suc 0) = [0x2000]"
  "batch_at shrink_example 0 12 0 = []"
  by (simp_all add: batch_at_def shrink_example_def drain_example_def)


text \<open>
  C7 (amended): for a CPU in range and an unlocked header, with
  \<^verbatim>\<open>unused = end_copy - current\<close>, ShrinkOtherCache calls the shrink handler exactly when
  \<^verbatim>\<open>unused < len\<close>, once, with the \<^verbatim>\<open>actual_pop\<close> words below \<^verbatim>\<open>current\<close>, where
  \<^verbatim>\<open>actual_pop\<close> is the smaller of \<^verbatim>\<open>len - unused\<close> cut to 16 bits and \<^verbatim>\<open>current - begin\<close>,
  and lowers \<^verbatim>\<open>current\<close> by it; it then lowers \<^verbatim>\<open>end_copy\<close> by \<^verbatim>\<open>to_shrink\<close>, the smaller
  of \<open>len\<close> cut to 16 bits and \<^verbatim>\<open>end_copy - current\<close> after the pop, sets \<^verbatim>\<open>end\<close> to the
  new \<^verbatim>\<open>end_copy\<close>, restores \<^verbatim>\<open>begin\<close> and returns \<^verbatim>\<open>to_shrink\<close>. With
  \<^verbatim>\<open>begin <= current <= end_copy\<close> these are the differences and minima of the numbers
  (\<open>len\<close> and \<^verbatim>\<open>len - unused\<close> modulo \<open>2^16\<close>), and the batch lies in the slots when they
  are above the header word.
\<close>

theorem ShrinkOtherCache_pops_and_shrinks:
  assumes "0 \<le> cpu" and "cpu < num_cpus s" and "LoadHeader s cpu sc = h"
    and "begin_off h \<noteq> 0xFFFF"
    and "unused = end_copy h - current h"
    and "actual_pop =
           (if ucast unused < len
            then min (ucast (len - ucast unused)) (current h - begin_off h) else 0)"
    and "to_shrink = min (ucast len) (end_copy h - (current h - actual_pop))"
  shows
  "\<exists>s'. ShrinkOtherCache s cpu sc len shrink_handler = Some (Inr (ucast to_shrink, s')) \<and>
     LoadHeader s' cpu sc =
       \<lparr>current = current h - actual_pop, end_copy = end_copy h - to_shrink,
        begin_off = begin_off h, end_off = end_copy h - to_shrink\<rparr> \<and>
     world s' =
       (if ucast unused < len
        then shrink_handler sc
               (batch_at (LockHeader s cpu sc) cpu (unat (current h) - unat actual_pop)
                  (unat actual_pop))
               (ucast actual_pop) (world s)
        else world s) \<and>
     (begin_off h \<le> current h \<and> current h \<le> end_copy h \<longrightarrow>
        unat unused = unat (end_copy h) - unat (current h) \<and>
        (ucast unused < len) = (unat (end_copy h) - unat (current h) < unat len) \<and>
        unat actual_pop =
          (if unat (end_copy h) - unat (current h) < unat len
           then min ((unat len - (unat (end_copy h) - unat (current h))) mod 2 ^ 16)
                    (unat (current h) - unat (begin_off h))
           else 0) \<and>
        unat (current h - actual_pop) = unat (current h) - unat actual_pop \<and>
        unat to_shrink =
          min (unat len mod 2 ^ 16) (unat (end_copy h) - (unat (current h) - unat actual_pop)) \<and>
        unat (end_copy h - to_shrink) = unat (end_copy h) - unat to_shrink \<and>
        begin_off h \<le> current h - actual_pop \<and>
        current h - actual_pop \<le> end_copy h - to_shrink \<and>
        (sc < unat (begin_off h) \<longrightarrow>
           batch_at (LockHeader s cpu sc) cpu (unat (current h) - unat actual_pop)
             (unat actual_pop) =
           batch_at s cpu (unat (current h) - unat actual_pop) (unat actual_pop)))"
proof -
  have p: "actual_pop = shrink_pop h len"
    using assms(5,6) by (simp add: shrink_pop_def)
  have a: "to_shrink = shrink_amount h len"
    using assms(7) p by (simp add: shrink_amount_def)
  let ?s' = "StoreHeader
         (if ucast (end_copy h - current h) < len
          then StoreHeader
                 ((LockHeader s cpu sc)\<lparr>world :=
                    shrink_handler sc
                      (batch_at (LockHeader s cpu sc) cpu
                         (unat (current h) - unat (shrink_pop h len)) (unat (shrink_pop h len)))
                      (ucast (shrink_pop h len)) (world s)\<rparr>)
                 cpu sc (h\<lparr>begin_off := 0xFFFF, end_off := 0,
                          current := current h - shrink_pop h len\<rparr>)
          else LockHeader s cpu sc)
         cpu sc
         \<lparr>current = current h - shrink_pop h len,
          end_copy = end_copy h - shrink_amount h len,
          begin_off = begin_off h,
          end_off = end_copy h - shrink_amount h len\<rparr>"
  have r: "ShrinkOtherCache s cpu sc len shrink_handler = Some (Inr (ucast to_shrink, ?s'))"
    unfolding a using assms(1-4) by (rule ShrinkOtherCache_eq)
  have hd: "LoadHeader ?s' cpu sc =
       \<lparr>current = current h - actual_pop, end_copy = end_copy h - to_shrink,
        begin_off = begin_off h, end_off = end_copy h - to_shrink\<rparr>"
    unfolding p a by (simp add: LoadHeader_StoreHeader)
  have w: "world ?s' =
       (if ucast unused < len
        then shrink_handler sc
               (batch_at (LockHeader s cpu sc) cpu (unat (current h) - unat actual_pop)
                  (unat actual_pop))
               (ucast actual_pop) (world s)
        else world s)"
    unfolding p assms(5) by (simp add: StoreHeader_def store_word_def)
  have wfall: "begin_off h \<le> current h \<and> current h \<le> end_copy h \<longrightarrow>
        unat unused = unat (end_copy h) - unat (current h) \<and>
        (ucast unused < len) = (unat (end_copy h) - unat (current h) < unat len) \<and>
        unat actual_pop =
          (if unat (end_copy h) - unat (current h) < unat len
           then min ((unat len - (unat (end_copy h) - unat (current h))) mod 2 ^ 16)
                    (unat (current h) - unat (begin_off h))
           else 0) \<and>
        unat (current h - actual_pop) = unat (current h) - unat actual_pop \<and>
        unat to_shrink =
          min (unat len mod 2 ^ 16) (unat (end_copy h) - (unat (current h) - unat actual_pop)) \<and>
        unat (end_copy h - to_shrink) = unat (end_copy h) - unat to_shrink \<and>
        begin_off h \<le> current h - actual_pop \<and>
        current h - actual_pop \<le> end_copy h - to_shrink \<and>
        (sc < unat (begin_off h) \<longrightarrow>
           batch_at (LockHeader s cpu sc) cpu (unat (current h) - unat actual_pop)
             (unat actual_pop) =
           batch_at s cpu (unat (current h) - unat actual_pop) (unat actual_pop))"
  proof (rule impI)
    assume "begin_off h \<le> current h \<and> current h \<le> end_copy h"
    then have bc: "begin_off h \<le> current h" and ce: "current h \<le> end_copy h" by simp_all
    note sp = shrink_pop_wellformed [OF bc ce] and sa = shrink_amount_wellformed [OF bc ce]
    have bt: "sc < unat (begin_off h) \<longrightarrow>
        batch_at (LockHeader s cpu sc) cpu (unat (current h) - unat (shrink_pop h len))
          (unat (shrink_pop h len)) =
        batch_at s cpu (unat (current h) - unat (shrink_pop h len)) (unat (shrink_pop h len))"
    proof (intro impI batch_at_LockHeader)
      assume lay: "sc < unat (begin_off h)"
      have "unat (begin_off h) \<le> unat (current h - shrink_pop h len)"
        using sp(5) by (simp add: word_le_nat_alt)
      then show "sc < unat (current h) - unat (shrink_pop h len)"
        using lay sp(4) by simp
    qed
    show "unat unused = unat (end_copy h) - unat (current h) \<and>
        (ucast unused < len) = (unat (end_copy h) - unat (current h) < unat len) \<and>
        unat actual_pop =
          (if unat (end_copy h) - unat (current h) < unat len
           then min ((unat len - (unat (end_copy h) - unat (current h))) mod 2 ^ 16)
                    (unat (current h) - unat (begin_off h))
           else 0) \<and>
        unat (current h - actual_pop) = unat (current h) - unat actual_pop \<and>
        unat to_shrink =
          min (unat len mod 2 ^ 16) (unat (end_copy h) - (unat (current h) - unat actual_pop)) \<and>
        unat (end_copy h - to_shrink) = unat (end_copy h) - unat to_shrink \<and>
        begin_off h \<le> current h - actual_pop \<and>
        current h - actual_pop \<le> end_copy h - to_shrink \<and>
        (sc < unat (begin_off h) \<longrightarrow>
           batch_at (LockHeader s cpu sc) cpu (unat (current h) - unat actual_pop)
             (unat actual_pop) =
           batch_at s cpu (unat (current h) - unat actual_pop) (unat actual_pop))"
      unfolding p a assms(5) by (intro conjI sp sa bt)
  qed
  show ?thesis
    by (intro exI [of _ ?s'] conjI r hd w wfall)
qed

theorem ShrinkOtherCache_pops_and_shrinks_witness:
  "(\<exists>s'. ShrinkOtherCache shrink_example 0 2 4 log_shrink = Some (Inr (4, s')) \<and>
      LoadHeader s' 0 2 = \<lparr>current = 11, end_copy = 11, begin_off = 10, end_off = 11\<rparr> \<and>
      world s' = [(2, [0x2000], 1)]) \<and>
   (\<exists>s'. ShrinkOtherCache shrink_example 0 2 2 log_shrink = Some (Inr (2, s')) \<and>
      LoadHeader s' 0 2 = \<lparr>current = 12, end_copy = 13, begin_off = 10, end_off = 13\<rparr> \<and>
      world s' = [])"
proof -
  have a: "(0 :: int) \<le> 0" "0 < num_cpus shrink_example"
    "begin_off hdr_example \<noteq> 0xFFFF"
    by (simp_all add: shrink_example_fields hdr_example_def)
  have wf: "begin_off hdr_example \<le> current hdr_example \<and> current hdr_example \<le> end_copy hdr_example"
    "2 < unat (begin_off hdr_example)"
    by (simp_all add: hdr_example_def)
  have u: "(3 :: u16) = end_copy hdr_example - current hdr_example"
    by (simp add: hdr_example_def)
  have p4: "(1 :: u16) = (if ucast (3 :: u16) < (4 :: u64)
      then min (ucast (4 - ucast (3 :: u16) :: u64)) (current hdr_example - begin_off hdr_example)
      else 0)"
    by (simp add: hdr_example_def)
  have t4: "(4 :: u16) = min (ucast (4 :: u64)) (end_copy hdr_example - (current hdr_example - 1))"
    by (simp add: hdr_example_def)
  from ShrinkOtherCache_pops_and_shrinks [OF a(1,2) LoadHeader_shrink_example a(3) u p4 t4,
      of log_shrink] wf
  obtain s4 where
    r4: "ShrinkOtherCache shrink_example 0 2 4 log_shrink = Some (Inr (ucast (4 :: u16), s4))" and
    h4: "LoadHeader s4 0 2 =
       \<lparr>current = current hdr_example - 1, end_copy = end_copy hdr_example - 4,
        begin_off = begin_off hdr_example, end_off = end_copy hdr_example - 4\<rparr>" and
    w4: "world s4 =
       (if ucast (3 :: u16) < (4 :: u64)
        then log_shrink 2
               (batch_at (LockHeader shrink_example 0 2) 0 (unat (current hdr_example) - unat (1 :: u16))
                  (unat (1 :: u16)))
               (ucast (1 :: u16)) (world shrink_example)
        else world shrink_example)" and
    b4: "batch_at (LockHeader shrink_example 0 2) 0 (unat (current hdr_example) - unat (1 :: u16))
             (unat (1 :: u16)) =
           batch_at shrink_example 0 (unat (current hdr_example) - unat (1 :: u16)) (unat (1 :: u16))"
    by blast
  have c4: "unat (current hdr_example) - unat (1 :: u16) = 11"
    by (simp add: hdr_example_def)
  have b4': "batch_at (LockHeader shrink_example 0 2) 0 11 (Suc 0) = [0x2000]"
    using b4 c4 by (simp add: batch_shrink_example)
  have w4': "world s4 = [(2, [0x2000], 1)]"
    unfolding w4 c4 by (simp add: b4' log_shrink_def shrink_example_fields)
  have h4': "LoadHeader s4 0 2 = \<lparr>current = 11, end_copy = 11, begin_off = 10, end_off = 11\<rparr>"
    unfolding h4 by (simp add: hdr_example_def)
  have r4': "ShrinkOtherCache shrink_example 0 2 4 log_shrink = Some (Inr (4, s4))"
    using r4 by simp
  have p2: "(0 :: u16) = (if ucast (3 :: u16) < (2 :: u64)
      then min (ucast (2 - ucast (3 :: u16) :: u64)) (current hdr_example - begin_off hdr_example)
      else 0)"
    by simp
  have t2: "(2 :: u16) = min (ucast (2 :: u64)) (end_copy hdr_example - (current hdr_example - 0))"
    by (simp add: hdr_example_def)
  from ShrinkOtherCache_pops_and_shrinks [OF a(1,2) LoadHeader_shrink_example a(3) u p2 t2,
      of log_shrink]
  obtain s2 where
    r2: "ShrinkOtherCache shrink_example 0 2 2 log_shrink = Some (Inr (ucast (2 :: u16), s2))" and
    h2: "LoadHeader s2 0 2 =
       \<lparr>current = current hdr_example - 0, end_copy = end_copy hdr_example - 2,
        begin_off = begin_off hdr_example, end_off = end_copy hdr_example - 2\<rparr>" and
    w2: "world s2 =
       (if ucast (3 :: u16) < (2 :: u64)
        then log_shrink 2
               (batch_at (LockHeader shrink_example 0 2) 0 (unat (current hdr_example) - unat (0 :: u16))
                  (unat (0 :: u16)))
               (ucast (0 :: u16)) (world shrink_example)
        else world shrink_example)"
    by blast
  have w2': "world s2 = []"
    unfolding w2 by (simp add: shrink_example_fields)
  have h2': "LoadHeader s2 0 2 = \<lparr>current = 12, end_copy = 13, begin_off = 10, end_off = 13\<rparr>"
    unfolding h2 by (simp add: hdr_example_def)
  have r2': "ShrinkOtherCache shrink_example 0 2 2 log_shrink = Some (Inr (2, s2))"
    using r2 by simp
  show ?thesis using r4' h4' w4' r2' h2' w2' by blast
qed

text \<open>C7 as stated fails for a length of 16 bits or more: with two items and three
  unused slots, \<^verbatim>\<open>ShrinkOtherCache(0, 2, 65539, h)\<close> hands the handler no item and leaves
  \<^verbatim>\<open>current\<close> alone, where \<open>min(len - unused, current - begin)\<close> is 2.\<close>

theorem ShrinkOtherCache_len_counterexample:
  "(\<exists>s'. ShrinkOtherCache shrink_example 0 2 65539 log_shrink = Some (Inr (3, s')) \<and>
      LoadHeader s' 0 2 = \<lparr>current = 12, end_copy = 12, begin_off = 10, end_off = 12\<rparr> \<and>
      world s' = [(2, [], 0)]) \<and>
   min (65539 - (unat (end_copy hdr_example) - unat (current hdr_example)))
       (unat (current hdr_example) - unat (begin_off hdr_example)) = (2 :: nat)"
proof -
  have a: "(0 :: int) \<le> 0" "0 < num_cpus shrink_example"
    "begin_off hdr_example \<noteq> 0xFFFF"
    by (simp_all add: shrink_example_fields hdr_example_def)
  have p: "shrink_pop hdr_example 65539 = 0"
    by (simp add: shrink_pop_def hdr_example_def)
  have q: "shrink_amount hdr_example 65539 = 3"
    by (simp add: shrink_amount_def p) (simp add: hdr_example_def)
  have lt: "(ucast (end_copy hdr_example - current hdr_example) :: u64) < 65539"
    by (simp add: hdr_example_def)
  note e = ShrinkOtherCache_eq [OF a(1,2) LoadHeader_shrink_example a(3), of 65539 log_shrink]
  let ?s' = "StoreHeader
         (StoreHeader
                 ((LockHeader shrink_example 0 2)\<lparr>world :=
                    log_shrink 2
                      (batch_at (LockHeader shrink_example 0 2) 0
                         (unat (current hdr_example) - unat (0 :: u16)) (unat (0 :: u16)))
                      (ucast (0 :: u16)) (world shrink_example)\<rparr>)
                 0 2 (hdr_example\<lparr>begin_off := 0xFFFF, end_off := 0,
                          current := current hdr_example - 0\<rparr>))
         0 2
         \<lparr>current = current hdr_example - 0,
          end_copy = end_copy hdr_example - 3,
          begin_off = begin_off hdr_example,
          end_off = end_copy hdr_example - 3\<rparr>"
  have r: "ShrinkOtherCache shrink_example 0 2 65539 log_shrink = Some (Inr (3, ?s'))"
    using e lt unfolding p q by simp
  have h: "LoadHeader ?s' 0 2 = \<lparr>current = 12, end_copy = 12, begin_off = 10, end_off = 12\<rparr>"
    by (simp add: LoadHeader_StoreHeader hdr_example_def)
  have w: "world ?s' = [(2, [], 0)]"
    by (simp add: log_shrink_def shrink_example_fields batch_at_def)
  have m: "min (65539 - (unat (end_copy hdr_example) - unat (current hdr_example)))
       (unat (current hdr_example) - unat (begin_off hdr_example)) = (2 :: nat)"
    by (simp add: hdr_example_def)
  show ?thesis using r h w m by blast
qed

subsection \<open>The header invariant\<close>

lemma GetShift_StoreHeader [simp]: "GetShift (StoreHeader s cpu sc hdr) = GetShift s"
  by (simp add: GetShift_def)

lemma GetShift_store_word [simp]: "GetShift (store_word s cpu i v) = GetShift s"
  by (simp add: GetShift_def)


lemma slab_wf_header:
  "slab_wf nc capf s \<Longrightarrow> sc < nc \<Longrightarrow>
   header_wf nc (unat (GetShift s)) (capf sc) (LoadHeader s cpu sc)"
  by (simp add: slab_wf_def)








lemma GetShift_Push_commit [simp]: "GetShift (Push_commit s sc item) = GetShift s"
  by (simp add: GetShift_def)

lemma GetShift_Pop_commit [simp]: "GetShift (Pop_commit s sc) = GetShift s"
  by (simp add: GetShift_def)




lemma GetShift_LockHeader [simp]: "GetShift (LockHeader s cpu sc) = GetShift s"
  by (simp add: GetShift_def)

lemma GetShift_world_update [simp]: "GetShift (s\<lparr>world := w\<rparr>) = GetShift s"
  by (simp add: GetShift_def)

lemma LoadHeader_world_update [simp]: "LoadHeader (s\<lparr>world := w\<rparr>) cpu sc = LoadHeader s cpu sc"
  by (simp add: LoadHeader_def)









lemma GetShift_lock_all [simp]: "GetShift (lock_all n s cpu) = GetShift s"
  by (simp add: GetShift_def)










lemma bit_cast_Header_0:
  "bit_cast_Header 0 = \<lparr>current = 0, end_copy = 0, begin_off = 0, end_off = 0\<rparr>"
  by (simp add: bit_cast_Header_def)

lemma slab_wf_zero:
  "unat (GetShift s) \<le> 18 \<Longrightarrow> \<forall>cpu i. mem s cpu i = 0 \<Longrightarrow> slab_wf nc capf s"
  by (simp add: slab_wf_def LoadHeader_def bit_cast_Header_0 header_wf_def header_invariant_def)


text \<open>
  In a well-formed slab the slots of an unlocked header end inside the region of its
  CPU, and words inside the regions of two CPUs have different addresses: there the
  per-CPU arrays of \<open>mem\<close> are the adjacent slices of the allocation.
\<close>

lemma slab_wf_slots_in_region:
  assumes wf: "slab_wf nc capf s" and sc: "sc < nc"
    and u: "begin_off (LoadHeader s cpu sc) \<noteq> 0xFFFF"
  shows "8 * unat (end_off (LoadHeader s cpu sc)) \<le> 2 ^ unat (GetShift s)"
proof (cases "begin_off (LoadHeader s cpu sc) = 0")
  case True
  then show ?thesis
    using slab_wf_header [OF wf sc, of cpu] u by (simp add: header_wf_def)
next
  case False
  let ?h = "LoadHeader s cpu sc"
  from slab_wf_header [OF wf sc, of cpu] u False
  have "unat (end_off ?h) - unat (begin_off ?h) \<le> unat (capf sc)"
    and b: "8 * (unat (begin_off ?h) + unat (capf sc)) \<le> 2 ^ unat (GetShift s)"
    by (simp_all add: header_wf_def)
  then have "8 * unat (end_off ?h) \<le> 8 * (unat (begin_off ?h) + unat (capf sc))"
    by simp
  then show ?thesis using b by (rule order_trans)
qed

lemma region_index:
  fixes c c' :: int
  assumes "c * 2 ^ k + int a = c' * 2 ^ k + int b" and "a < 2 ^ k" and "b < 2 ^ k"
  shows "c = c' \<and> a = b"
proof -
  have a: "(c * 2 ^ k + int a) div 2 ^ k = c" "(c * 2 ^ k + int a) mod 2 ^ k = int a"
    using assms(2) by simp_all
  have b: "(c' * 2 ^ k + int b) div 2 ^ k = c'" "(c' * 2 ^ k + int b) mod 2 ^ k = int b"
    using assms(3) by simp_all
  from a b assms(1) show ?thesis by simp
qed

lemma word_of_int_inj_64:
  assumes "0 \<le> a" and "a < 2 ^ 64" and "0 \<le> b" and "b < 2 ^ 64"
    and "(word_of_int a :: u64) = word_of_int b"
  shows "a = b"
proof -
  have "uint (word_of_int a :: u64) = uint (word_of_int b :: u64)"
    using assms(5) by (rule arg_cong)
  then have "a mod 2 ^ 64 = b mod 2 ^ 64"
    unfolding uint_word_of_int by simp
  then show ?thesis using assms(1-4) by simp
qed

lemma word_address_inj:
  assumes sh: "unat (GetShift s) \<le> 18"
    and c: "0 \<le> cpu" "cpu < 2 ^ 31" and c': "0 \<le> cpu'" "cpu' < 2 ^ 31"
    and i: "8 * i < 2 ^ unat (GetShift s)" and j: "8 * j < 2 ^ unat (GetShift s)"
    and eq: "word_address s cpu i = word_address s cpu' j"
  shows "cpu = cpu' \<and> i = j"
proof -
  let ?k = "unat (GetShift s)"
  let ?a = "cpu * 2 ^ ?k + int (8 * i)"
  let ?b = "cpu' * 2 ^ ?k + int (8 * j)"
  have p: "(2 :: int) ^ ?k \<le> 2 ^ 18"
    using sh by (intro power_increasing) simp_all
  have p0: "(0 :: int) < 2 ^ ?k" by simp
  have ia: "int (8 * i) < 2 ^ ?k" and ib: "int (8 * j) < 2 ^ ?k"
    using i j by (metis of_nat_less_iff of_nat_numeral of_nat_power)+
  have "cpu * 2 ^ ?k \<le> 2 ^ 31 * 2 ^ 18"
    using c p by (intro mult_mono) simp_all
  then have ra: "0 \<le> ?a" "?a < 2 ^ 64"
    using c ia p by simp_all
  have "cpu' * 2 ^ ?k \<le> 2 ^ 31 * 2 ^ 18"
    using c' p by (intro mult_mono) simp_all
  then have rb: "0 \<le> ?b" "?b < 2 ^ 64"
    using c' ib p by simp_all
  have wa: "word_address s cpu i = GetSlabs s + word_of_int ?a"
    by (simp add: word_address_def)
  have wb: "word_address s cpu' j = GetSlabs s + word_of_int ?b"
    by (simp add: word_address_def)
  from eq have "(word_of_int ?a :: u64) = word_of_int ?b"
    unfolding wa wb by (rule add_left_imp_eq)
  then have "?a = ?b"
    by (rule word_of_int_inj_64 [OF ra rb])
  from region_index [OF this i j] show ?thesis
    by simp
qed










end
